theory Spec2Isabelle
  imports Complex_Main
begin

section \<open>Python values and exceptions\<close>

text \<open>
  The layer \<open>Conv\<close> of \<^verbatim>\<open>speechbrain/nnet/CNN.py\<close> is modelled with explicit state
  passing: every method takes the object and returns the updated object, or the
  exception it raises. Tensors are represented by what the layer's own logic looks at:
  their shape (a list of integers) for the data path of \<open>forward\<close>, and lists of numbers
  for the parameters and the filters of the sinc layer. The attribute \<open>device\<close> is not
  modelled.
\<close>

datatype error =
    ValueError
  | TypeError
  | IndexError
  | ZeroDivisionError
  | AttributeError
  | RuntimeError
  | OverflowError
  | NotImplementedError
  | AssertionError

text \<open>
  The arguments \<open>kernel_size\<close>, \<open>stride\<close> and \<open>dilation\<close> are either a single integer,
  a tuple or a list.
\<close>

datatype py_seq = PyInt int | PyTuple "int list" | PyList "int list"

definition thenE :: "error + 'a \<Rightarrow> ('a \<Rightarrow> error + 'b) \<Rightarrow> error + 'b" where
  "thenE m f = (case m of Inl e \<Rightarrow> Inl e | Inr v \<Rightarrow> f v)"

text \<open>Iterating over, or taking \<open>len\<close> of, an integer raises \<open>TypeError\<close>.\<close>

fun seq_elems :: "py_seq \<Rightarrow> error + int list" where
  "seq_elems (PyInt k) = Inl TypeError"
| "seq_elems (PyTuple xs) = Inr xs"
| "seq_elems (PyList xs) = Inr xs"

text \<open>\<open>xs[i]\<close> on a Python sequence: a negative index counts from the end.\<close>

definition py_index :: "'a list \<Rightarrow> int \<Rightarrow> error + 'a" where
  "py_index xs i =
     (if 0 \<le> i \<and> i < int (length xs) then Inr (xs ! nat i)
      else if i < 0 \<and> - int (length xs) \<le> i then Inr (xs ! nat (int (length xs) + i))
      else Inl IndexError)"

definition subscript :: "py_seq \<Rightarrow> int \<Rightarrow> error + int" where
  "subscript s i = thenE (seq_elems s) (\<lambda>xs. py_index xs i)"

text \<open>
  \<^verbatim>\<open>"... Got %s." % (t)\<close>: the parentheses do not build a tuple, so the right operand
  is \<open>t\<close> itself. A tuple is taken as the argument list of the format and must have
  exactly one element for the single \<open>%s\<close>; anything else is formatted as one value.
\<close>

fun percent_s :: "py_seq \<Rightarrow> error + unit" where
  "percent_s (PyTuple xs) = (if length xs = 1 then Inr () else Inl TypeError)"
| "percent_s (PyInt k) = Inr ()"
| "percent_s (PyList xs) = Inr ()"

section \<open>Floating-point values\<close>

text \<open>
  Python's floats and the entries of the float tensors are modelled by real numbers
  wherever the source only adds, subtracts, multiplies or calls \<open>log10\<close>, \<open>cos\<close> and
  \<open>**\<close> on them. Two things are written out, because they change what the source
  computes. The first is the rounding to a double where the source goes from integers
  through floats back to integers: \<open>float64_round\<close> is the double nearest to a real
  number, ties to the even mantissa, for results below the overflow threshold.
\<close>

definition round_half_even :: "real \<Rightarrow> int" where
  "round_half_even x =
     (let f = \<lfloor>x\<rfloor>; r = x - real_of_int f
      in if r < 1 / 2 then f else if 1 / 2 < r then f + 1 else if even f then f else f + 1)"

definition float64_round :: "real \<Rightarrow> real" where
  "float64_round x =
     (if x = 0 then 0
      else (let e = max \<lfloor>log 2 \<bar>x\<bar>\<rfloor> (- 1022); u = 2 powr real_of_int (e - 52)
            in u * real_of_int (round_half_even (x / u))))"

text \<open>
  \<open>a / b\<close> on two Python integers is the correctly rounded quotient;
  \<open>float(n)\<close>, which \<open>n / 2.0\<close> applies to \<open>n\<close>, is the correctly rounded integer.
  Both raise \<open>OverflowError\<close> when the result would round to \<open>2 ** 1024\<close> or more.
\<close>

definition int_truediv :: "int \<Rightarrow> int \<Rightarrow> error + real" where
  "int_truediv a b =
     (if b = 0 then Inl ZeroDivisionError
      else if 2 ^ 1024 - 2 ^ 970 \<le> \<bar>real_of_int a / real_of_int b\<bar> then Inl OverflowError
      else Inr (float64_round (real_of_int a / real_of_int b)))"

definition int_to_float :: "int \<Rightarrow> error + real" where
  "int_to_float n =
     (if 2 ^ 1024 - 2 ^ 970 \<le> \<bar>real_of_int n\<bar> then Inl OverflowError
      else Inr (float64_round (real_of_int n)))"

text \<open>
  The second is division by zero, which on floats and tensors does not raise: it gives
  an infinity or \<open>nan\<close>. Where the source divides tensors, the entries are values of
  type \<open>fval\<close>: a real number, one of the two infinities, or \<open>nan\<close>. The operations
  follow IEEE 754 on these values; finite results are exact, and zero has no sign and
  divides like \<open>+0\<close>. \<open>feq\<close> is the comparison \<open>==\<close>, which \<open>nan\<close> fails even against
  itself.
\<close>

datatype fval = Fin real | PInf | NInf | NaN

definition inf_of :: "bool \<Rightarrow> fval" where
  "inf_of positive = (if positive then PInf else NInf)"

fun fdiv :: "fval \<Rightarrow> fval \<Rightarrow> fval" where
  "fdiv (Fin x) (Fin y) =
     (if y \<noteq> 0 then Fin (x / y) else if x = 0 then NaN else inf_of (0 < x))"
| "fdiv (Fin x) PInf = Fin 0"
| "fdiv (Fin x) NInf = Fin 0"
| "fdiv PInf (Fin y) = inf_of (0 \<le> y)"
| "fdiv NInf (Fin y) = inf_of (y < 0)"
| "fdiv a b = NaN"

fun fmul :: "fval \<Rightarrow> fval \<Rightarrow> fval" where
  "fmul (Fin x) (Fin y) = Fin (x * y)"
| "fmul (Fin x) PInf = (if x = 0 then NaN else inf_of (0 < x))"
| "fmul (Fin x) NInf = (if x = 0 then NaN else inf_of (x < 0))"
| "fmul PInf (Fin y) = (if y = 0 then NaN else inf_of (0 < y))"
| "fmul NInf (Fin y) = (if y = 0 then NaN else inf_of (y < 0))"
| "fmul PInf PInf = PInf"
| "fmul NInf NInf = PInf"
| "fmul PInf NInf = NInf"
| "fmul NInf PInf = NInf"
| "fmul a b = NaN"

fun fsub :: "fval \<Rightarrow> fval \<Rightarrow> fval" where
  "fsub (Fin x) (Fin y) = Fin (x - y)"
| "fsub (Fin x) PInf = NInf"
| "fsub (Fin x) NInf = PInf"
| "fsub PInf (Fin y) = PInf"
| "fsub NInf (Fin y) = NInf"
| "fsub PInf NInf = PInf"
| "fsub NInf PInf = NInf"
| "fsub a b = NaN"

fun fsin :: "fval \<Rightarrow> fval" where
  "fsin (Fin x) = Fin (sin x)"
| "fsin a = NaN"


section \<open>The layer object\<close>

text \<open>
  The convolution module built by \<open>nn.Conv1d\<close> or \<open>nn.Conv2d\<close>, reduced to the
  hyperparameters that decide the shape of its output, in the order
  \<open>in_channels\<close>, \<open>out_channels\<close>, \<open>kernel_size\<close>, \<open>stride\<close>, \<open>dilation\<close>,
  \<open>groups\<close>, \<open>bias\<close>.
\<close>

datatype torch_conv =
    Conv1d int int int int int int bool
  | Conv2d int int "int \<times> int" "int \<times> int" "int \<times> int" int bool

text \<open>
  The tensors that \<open>_init_sinc_conv\<close> stores, each a list of reals; the entries of
  \<open>n_\<close> come from a division by \<open>sample_rate\<close> and are of type \<open>fval\<close>. The attributes
  \<^verbatim>\<open>low_hz_\<close>, \<^verbatim>\<open>band_hz_\<close>, \<^verbatim>\<open>window_\<close> and \<^verbatim>\<open>n_\<close> of the source are
  the fields \<open>p_low_hz\<close>, \<open>p_band_hz\<close>, \<open>p_window\<close> and \<open>p_n\<close>.
\<close>

record sinc_state =
  p_low_hz :: "real list"
  p_band_hz :: "real list"
  p_window :: "real list"
  p_n :: "fval list"

record Conv =
  out_channels :: int
  kernel_size :: py_seq
  stride :: py_seq
  dilation :: py_seq
  padding :: bool
  groups :: int
  bias :: bool
  padding_mode :: string
  sinc_conv :: bool
  sample_rate :: real
  min_low_hz :: real
  min_band_hz :: real
  reshape_conv1d :: bool
  unsqueeze :: bool
  conv1d :: bool
  conv2d :: bool
  in_channels :: "int option"
  conv :: "torch_conv option"
  sinc :: "sinc_state option"

section \<open>Construction and the kernel check\<close>

text \<open>
  The loop of \<open>_kernel_check\<close> over the kernel sizes. At the first even size it
  formats the message and raises: \<open>ValueError\<close> when the formatting succeeds, the
  formatting's own \<open>TypeError\<close> otherwise.
\<close>

fun check_odd :: "py_seq \<Rightarrow> int list \<Rightarrow> error + unit" where
  "check_odd ks [] = Inr ()"
| "check_odd ks (sz # rest) =
     (if sz mod 2 = 0
      then (case percent_s ks of Inl e \<Rightarrow> Inl e | Inr _ \<Rightarrow> Inl ValueError)
      else check_odd ks rest)"

text \<open>
  The last \<open>raise\<close> of \<open>_kernel_check\<close> builds its message with
  \<^verbatim>\<open>"..." + len(self.kernel_size)\<close>, a string plus an integer, which is a
  \<open>TypeError\<close> before the \<open>ValueError\<close> exists.
\<close>

definition kernel_check :: "Conv \<Rightarrow> error + Conv" where
  "kernel_check self =
     (let self1 = self\<lparr>conv1d := False, conv2d := False\<rparr>;
          self2 = (case kernel_size self1 of
                     PyInt k \<Rightarrow> self1\<lparr>kernel_size := PyTuple [k]\<rparr>
                   | _ \<Rightarrow> self1)
      in thenE (seq_elems (kernel_size self2)) (\<lambda>ks.
         thenE (check_odd (kernel_size self2) ks) (\<lambda>_.
           (let self3 = (if length ks = 1 then self2\<lparr>conv1d := True\<rparr> else self2);
                self4 = (if length ks = 2 then self3\<lparr>conv2d := True\<rparr> else self3)
            in if sinc_conv self4 \<and> conv2d self4 then Inl TypeError else Inr self4))))"

text \<open>\<open>__init__\<close>, with its twelve arguments in the order of the source.\<close>

definition Conv_init ::
  "int \<Rightarrow> py_seq \<Rightarrow> py_seq \<Rightarrow> py_seq \<Rightarrow> bool \<Rightarrow> int \<Rightarrow> bool \<Rightarrow> string \<Rightarrow> bool \<Rightarrow>
   real \<Rightarrow> real \<Rightarrow> real \<Rightarrow> error + Conv" where
  "Conv_init oc ks st dl pd gr bi pm sc sr mlh mbh =
     kernel_check
       \<lparr>out_channels = oc, kernel_size = ks, stride = st, dilation = dl, padding = pd,
        groups = gr, bias = bi, padding_mode = pm, sinc_conv = sc, sample_rate = sr,
        min_low_hz = mlh, min_band_hz = mbh, reshape_conv1d = False, unsqueeze = False,
        conv1d = False, conv2d = False, in_channels = None, conv = None, sinc = None\<rparr>"

text \<open>The constructor with every optional argument at its default.\<close>

definition Conv_default :: "int \<Rightarrow> py_seq \<Rightarrow> error + Conv" where
  "Conv_default oc ks =
     Conv_init oc ks (PyTuple [1, 1]) (PyTuple [1, 1]) True 1 True ''reflect'' False
       16000 50 50"

section \<open>The tensor library, at the level of shapes\<close>

text \<open>
  The operations of the tensor library that the layer calls are external to the
  repository. They are modelled by their documented effect on the shape of a tensor and
  by the conditions under which they raise.
\<close>

text \<open>
  The constructor shared by \<open>nn.Conv1d\<close> and \<open>nn.Conv2d\<close>: both channel counts must be
  divisible by \<open>groups\<close>, and the weight tensor of shape
  \<open>(out_channels, in_channels // groups, *kernel_size)\<close> must not have a negative
  dimension.
\<close>

definition conv_ctor :: "int \<Rightarrow> int \<Rightarrow> int list \<Rightarrow> int \<Rightarrow> error + unit" where
  "conv_ctor c_in c_out ks g =
     (if g = 0 then Inl ZeroDivisionError
      else if c_in mod g \<noteq> 0 then Inl ValueError
      else if c_out mod g \<noteq> 0 then Inl ValueError
      else if c_out < 0 \<or> c_in div g < 0 \<or> list_ex (\<lambda>k. k < 0) ks then Inl RuntimeError
      else Inr ())"

definition new_Conv1d ::
  "int \<Rightarrow> int \<Rightarrow> int \<Rightarrow> int \<Rightarrow> int \<Rightarrow> int \<Rightarrow> bool \<Rightarrow> error + torch_conv" where
  "new_Conv1d c_in c_out k s d g b =
     thenE (conv_ctor c_in c_out [k] g) (\<lambda>_. Inr (Conv1d c_in c_out k s d g b))"

definition new_Conv2d ::
  "int \<Rightarrow> int \<Rightarrow> int \<times> int \<Rightarrow> int \<times> int \<Rightarrow> int \<times> int \<Rightarrow> int \<Rightarrow> bool \<Rightarrow> error + torch_conv" where
  "new_Conv2d c_in c_out k s d g b =
     thenE (conv_ctor c_in c_out [fst k, snd k] g) (\<lambda>_. Inr (Conv2d c_in c_out k s d g b))"

text \<open>
  The length of one axis after a convolution without padding: the dilated kernel must
  fit into the input, and stride and dilation must be positive.
\<close>

definition conv_out_len :: "int \<Rightarrow> int \<Rightarrow> int \<Rightarrow> int \<Rightarrow> error + int" where
  "conv_out_len L k s d =
     (if s \<le> 0 \<or> d \<le> 0 \<or> k \<le> 0 then Inl RuntimeError
      else if L < d * (k - 1) + 1 then Inl RuntimeError
      else Inr ((L - d * (k - 1) - 1) div s + 1))"

text \<open>
  \<open>F.conv1d(x, w, stride, padding=0, dilation, groups=1)\<close> on an input of shape
  \<open>(batch, channels, length)\<close> and a weight of shape \<open>(out, channels, k)\<close>.
\<close>

definition F_conv1d :: "int list \<Rightarrow> int list \<Rightarrow> int \<Rightarrow> int \<Rightarrow> error + int list" where
  "F_conv1d x w s d =
     (case (x, w) of
        ([B, C, L], [c_out, c_in, k]) \<Rightarrow>
          if C \<noteq> c_in then Inl RuntimeError
          else thenE (conv_out_len L k s d) (\<lambda>L'. Inr [B, c_out, L'])
      | _ \<Rightarrow> Inl RuntimeError)"

text \<open>Calling the module: \<open>self.conv(x)\<close>.\<close>

fun apply_conv :: "torch_conv \<Rightarrow> int list \<Rightarrow> error + int list" where
  "apply_conv (Conv1d c_in c_out k s d g b) x =
     (case x of
        [B, C, L] \<Rightarrow>
          if C \<noteq> c_in then Inl RuntimeError
          else thenE (conv_out_len L k s d) (\<lambda>L'. Inr [B, c_out, L'])
      | _ \<Rightarrow> Inl RuntimeError)"
| "apply_conv (Conv2d c_in c_out k s d g b) x =
     (case x of
        [B, C, H, W] \<Rightarrow>
          if C \<noteq> c_in then Inl RuntimeError
          else thenE (conv_out_len H (fst k) (fst s) (fst d)) (\<lambda>H'.
               thenE (conv_out_len W (snd k) (snd s) (snd d)) (\<lambda>W'.
               Inr [B, c_out, H', W']))
      | _ \<Rightarrow> Inl RuntimeError)"

text \<open>\<open>x.transpose(1, -1)\<close> swaps the second and the last axis.\<close>

definition transpose_1_last :: "int list \<Rightarrow> error + int list" where
  "transpose_1_last x =
     (if length x < 2 then Inl IndexError
      else Inr (x[1 := x ! (length x - 1), length x - 1 := x ! 1]))"

text \<open>\<open>x.reshape(dims)\<close> keeps the number of elements.\<close>

definition reshape :: "int list \<Rightarrow> int list \<Rightarrow> error + int list" where
  "reshape x dims =
     (if list_ex (\<lambda>n. n < 0) dims \<or> prod_list dims \<noteq> prod_list x then Inl RuntimeError
      else Inr dims)"

text \<open>\<open>x.unsqueeze(1)\<close> inserts an axis of length one at position 1.\<close>

definition unsqueeze_1 :: "int list \<Rightarrow> error + int list" where
  "unsqueeze_1 x =
     (if length x < 1 then Inl IndexError else Inr (take 1 x @ [1] @ drop 1 x))"

text \<open>\<open>x.squeeze(1)\<close> removes the axis at position 1 only if its length is one.\<close>

definition squeeze_1 :: "int list \<Rightarrow> error + int list" where
  "squeeze_1 x =
     (if length x < 2 then Inl IndexError
      else if x ! 1 = 1 then Inr (take 1 x @ drop 2 x)
      else Inr x)"

text \<open>
  \<open>F.pad(x, pad, mode)\<close>. The pairs of \<open>pad\<close> apply to the axes from the last one
  backwards. Every mode but \<open>constant\<close> pads the last axis of a rank-3 tensor or the
  last two axes of a rank-4 tensor, and limits the amount: a reflection must be
  shorter than the axis, a circular padding not longer, a replication needs a
  non-empty axis.
\<close>

definition pad_admits :: "string \<Rightarrow> int \<Rightarrow> int \<Rightarrow> int \<Rightarrow> bool" where
  "pad_admits mode L l r =
     (0 \<le> L + l + r \<and>
      (if mode = ''reflect'' then l < L \<and> r < L
       else if mode = ''circular'' then l \<le> L \<and> r \<le> L
       else if mode = ''replicate'' then 0 < L
       else True))"

fun pad_axes :: "string \<Rightarrow> int list \<Rightarrow> int list \<Rightarrow> error + int list" where
  "pad_axes mode (L # ds) (l # r # ps) =
     (if pad_admits mode L l r
      then thenE (pad_axes mode ds ps) (\<lambda>ds'. Inr ((L + l + r) # ds'))
      else Inl RuntimeError)"
| "pad_axes mode ds ps = Inr ds"

definition F_pad :: "int list \<Rightarrow> int list \<Rightarrow> string \<Rightarrow> error + int list" where
  "F_pad x pad mode =
     (if length pad mod 2 \<noteq> 0 \<or> length x < length pad div 2 then Inl AssertionError
      else if mode \<notin> {''constant'', ''reflect'', ''replicate'', ''circular''}
        then Inl NotImplementedError
      else if mode \<noteq> ''constant'' \<and> length x \<notin> {3, 4, 5} then Inl NotImplementedError
      else if mode \<noteq> ''constant'' \<and> length pad \<noteq> 2 * (length x - 2) then Inl AssertionError
      else thenE (pad_axes mode (rev x) pad) (\<lambda>ds. Inr (rev ds)))"

text \<open>
  \<open>torch.linspace(start, end, steps)\<close>: \<open>steps\<close> points from \<open>start\<close> to \<open>end\<close>, both
  included, at equal distances.
\<close>

definition linspace :: "real \<Rightarrow> real \<Rightarrow> int \<Rightarrow> error + real list" where
  "linspace a b steps =
     (if steps < 0 then Inl RuntimeError
      else if steps = 1 then Inr [a]
      else Inr (map (\<lambda>i. a + real i * ((b - a) / real_of_int (steps - 1)))
                  [0 ..< nat steps]))"

text \<open>\<open>torch.arange(start, end)\<close> with step one.\<close>

definition arange :: "real \<Rightarrow> real \<Rightarrow> error + real list" where
  "arange a b =
     (if b < a then Inl RuntimeError
      else Inr (map (\<lambda>i. a + real i) [0 ..< nat \<lceil>b - a\<rceil>]))"

text \<open>\<open>torch.clamp(x, lo, hi)\<close>.\<close>

definition clamp :: "real \<Rightarrow> real \<Rightarrow> real \<Rightarrow> real" where
  "clamp x lo hi = min (max x lo) hi"

text \<open>Python's \<open>int(x)\<close> on a float truncates towards zero.\<close>

definition py_int :: "real \<Rightarrow> int" where
  "py_int x = (if 0 \<le> x then \<lfloor>x\<rfloor> else \<lceil>x\<rceil>)"

text \<open>Reading an attribute that was never assigned raises \<open>AttributeError\<close>.\<close>

definition attr :: "'a option \<Rightarrow> error + 'a" where
  "attr a = (case a of None \<Rightarrow> Inl AttributeError | Some v \<Rightarrow> Inr v)"

section \<open>Initialisation of the parameters\<close>

text \<open>
  \<open>_init_conv1d\<close>. \<open>first_input\<close> is the shape of the first input. Both \<open>raise\<close>
  statements build their message from a string plus an integer, so what they raise is
  a \<open>TypeError\<close>.
\<close>

definition init_conv1d :: "Conv \<Rightarrow> int list \<Rightarrow> error + Conv" where
  "init_conv1d self first_input =
     (if length first_input = 1 then Inl TypeError
      else
        (let self1 = (if length first_input = 2
                      then self\<lparr>unsqueeze := True, in_channels := Some 1\<rparr> else self);
             self2 = (if length first_input = 3
                      then self1\<lparr>in_channels := Some (first_input ! 2)\<rparr> else self1);
             self3 = (if length first_input = 4
                      then self2\<lparr>reshape_conv1d := True,
                                 in_channels := Some (first_input ! 2 * first_input ! 3)\<rparr>
                      else self2)
         in if length first_input > 4 then Inl TypeError
            else
              thenE (attr (in_channels self3)) (\<lambda>c_in.
              thenE (subscript (kernel_size self3) 0) (\<lambda>k.
              thenE (subscript (stride self3) 0) (\<lambda>s.
              thenE (subscript (dilation self3) 0) (\<lambda>d.
              thenE (new_Conv1d c_in (out_channels self3) k s d (groups self3) (bias self3))
                (\<lambda>m. Inr (self3\<lparr>conv := Some m\<rparr>))))))))"

text \<open>\<open>_init_conv2d\<close>, which also swaps kernel sizes, strides and dilations.\<close>

definition init_conv2d :: "Conv \<Rightarrow> int list \<Rightarrow> error + Conv" where
  "init_conv2d self first_input =
     (if length first_input \<le> 2 then Inl TypeError
      else
        (let self1 = (if length first_input = 3
                      then self\<lparr>unsqueeze := True, in_channels := Some 1\<rparr> else self);
             self2 = (if length first_input = 4
                      then self1\<lparr>in_channels := Some (first_input ! 3)\<rparr> else self1)
         in if length first_input > 4 then Inl TypeError
            else
              thenE (subscript (kernel_size self2) 1) (\<lambda>k1.
              thenE (subscript (kernel_size self2) 0) (\<lambda>k0.
              thenE (subscript (stride self2) 1) (\<lambda>s1.
              thenE (subscript (stride self2) 0) (\<lambda>s0.
              thenE (subscript (dilation self2) 1) (\<lambda>d1.
              thenE (subscript (dilation self2) 0) (\<lambda>d0.
              (let self3 = self2\<lparr>kernel_size := PyTuple [k1, k0],
                                stride := PyTuple [s1, s0],
                                dilation := PyTuple [d1, d0]\<rparr>
               in thenE (attr (in_channels self3)) (\<lambda>c_in.
                  thenE (new_Conv2d c_in (out_channels self3) (k1, k0) (s1, s0) (d1, d0)
                           (groups self3) (bias self3))
                    (\<lambda>m. Inr (self3\<lparr>conv := Some m\<rparr>))))))))))))"

text \<open>
  The conversions between Hz and mel, over the reals. \<open>np.log10\<close> is defined for
  positive arguments only, that is for \<open>hz > -700\<close>.
\<close>

definition to_mel :: "real \<Rightarrow> real" where
  "to_mel hz = 2595 * log 10 (1 + hz / 700)"

definition to_hz :: "real \<Rightarrow> real" where
  "to_hz mel = 700 * (10 powr (mel / 2595) - 1)"

text \<open>
  \<open>_init_sinc_conv\<close>. \<open>kernel_size[0] / 2\<close> and \<open>(kernel_size[0] - 1) / 2.0\<close> go from
  an integer to a float, and \<open>int\<close> and the length of \<open>arange\<close> go back to integers.
  The window is only divided by \<open>kernel_size[0]\<close> where it has entries, which needs
  \<open>kernel_size[0]\<close> to be 2 at least.
\<close>

definition init_sinc_conv :: "Conv \<Rightarrow> int list \<Rightarrow> error + Conv" where
  "init_sinc_conv self first_input =
     thenE (init_conv1d self first_input) (\<lambda>self1.
       (let high_hz = sample_rate self1 / 2 - (min_low_hz self1 + min_band_hz self1)
        in thenE (linspace (to_mel (min_low_hz self1)) (to_mel high_hz)
                    (out_channels self1 + 1)) (\<lambda>mel.
           (let hz = map to_hz mel;
                low = butlast hz;
                band = map2 (\<lambda>a b. a - b) (tl hz) (butlast hz)
            in thenE (subscript (kernel_size self1) 0) (\<lambda>k.
               thenE (int_truediv k 2) (\<lambda>half.
               thenE (linspace 0 (half - 1) (py_int half)) (\<lambda>n_lin.
               (let window = map (\<lambda>t. 0.54 - 0.46 * cos (2 * pi * t / real_of_int k)) n_lin
                in thenE (int_to_float (k - 1)) (\<lambda>km1.
                   (let n = km1 / 2
                    in thenE (arange (- n) 0) (\<lambda>ar.
                       Inr (self1\<lparr>sinc := Some
                              \<lparr>p_low_hz = low, p_band_hz = band, p_window = window,
                               p_n = map (\<lambda>t. fdiv (Fin (2 * pi * t)) (Fin (sample_rate self1)))
                                       ar\<rparr>\<rparr>))))))))))))"

text \<open>\<open>init_params\<close>.\<close>

definition init_params :: "Conv \<Rightarrow> int list \<Rightarrow> error + Conv" where
  "init_params self first_input =
     thenE (if conv1d self
            then (if sinc_conv self then init_sinc_conv self first_input
                  else init_conv1d self first_input)
            else Inr self) (\<lambda>self1.
     if conv2d self1 then init_conv2d self1 first_input else Inr self1)"

section \<open>Padding\<close>

text \<open>
  \<open>_get_padding_elem\<close>. Both branches divide two integers into a float and add 1 to
  it, which rounds again. In the first branch \<open>n_steps\<close> and \<open>L_out\<close> are computed and
  not used. In the second branch the stride is at most one, and a stride of zero is a
  division by zero.
\<close>

definition get_padding_elem :: "int \<Rightarrow> int \<Rightarrow> int \<Rightarrow> int \<Rightarrow> error + int list" where
  "get_padding_elem L_in s k d =
     (if s > 1 then
        thenE (int_truediv (L_in - k * d) s) (\<lambda>q.
          (let n_steps = \<lceil>float64_round (q + 1)\<rceil>;
               L_out = s * (n_steps - 1) + k * d
           in Inr [k div 2, k div 2]))
      else
        thenE (int_truediv (L_in - d * (k - 1) - 1) s) (\<lambda>q.
          (let L_out = py_int (float64_round (q + 1))
           in Inr [(L_in - L_out) div 2, (L_in - L_out) div 2])))"

text \<open>\<open>_manage_padding\<close>: both axes are padded from the length of the last axis.\<close>

definition manage_padding :: "Conv \<Rightarrow> int list \<Rightarrow> py_seq \<Rightarrow> py_seq \<Rightarrow> py_seq \<Rightarrow> error + int list" where
  "manage_padding self x ks dl st =
     thenE (py_index x (- 1)) (\<lambda>L_in.
     thenE (subscript st (- 1)) (\<lambda>s1.
     thenE (subscript ks (- 1)) (\<lambda>k1.
     thenE (subscript dl (- 1)) (\<lambda>d1.
     thenE (get_padding_elem L_in s1 k1 d1) (\<lambda>pad_time.
     thenE (if conv2d self
            then thenE (subscript st (- 2)) (\<lambda>s2.
                 thenE (subscript ks (- 2)) (\<lambda>k2.
                 thenE (subscript dl (- 2)) (\<lambda>d2.
                 thenE (get_padding_elem L_in s2 k2 d2) (\<lambda>padding_freq.
                 Inr (pad_time @ padding_freq)))))
            else Inr pad_time) (\<lambda>pad.
     F_pad x pad (padding_mode self)))))))"

section \<open>The sinc filters\<close>

text \<open>
  \<open>_get_sinc_filters\<close>. \<open>p_low_hz\<close> and \<open>p_band_hz\<close> hold one value per filter, \<open>p_n\<close>
  and \<open>p_window\<close> one value per point of the left half of a filter; learning changes the
  values and not the lengths. The low and the high cutoff of every filter:
\<close>

definition sinc_low :: "Conv \<Rightarrow> sinc_state \<Rightarrow> real list" where
  "sinc_low self ss = map (\<lambda>l. min_low_hz self + \<bar>l\<bar>) (p_low_hz ss)"

definition sinc_high :: "Conv \<Rightarrow> sinc_state \<Rightarrow> real list" where
  "sinc_high self ss =
     map2 (\<lambda>lo b. clamp (lo + min_band_hz self + \<bar>b\<bar>) (min_low_hz self) (sample_rate self / 2))
       (sinc_low self ss) (p_band_hz ss)"


text \<open>
  One filter, from its two cutoffs: the left half, the central element, the mirrored
  left half, and the normalisation by twice the band. The divisions by \<open>n_ / 2\<close> and
  by \<open>2 * band\<close> are divisions of tensors: a band of zero gives \<open>nan\<close>.
\<close>

definition sinc_row :: "fval list \<Rightarrow> real list \<Rightarrow> real \<Rightarrow> real \<Rightarrow> fval list" where
  "sinc_row ns win lo hi =
     (let band = hi - lo;
          band_pass_left =
            map2 (\<lambda>t w. fmul (fdiv (fsub (fsin (fmul (Fin hi) t)) (fsin (fmul (Fin lo) t)))
                                  (fdiv t (Fin 2))) (Fin w)) ns win;
          band_pass_center = Fin (2 * band);
          band_pass_right = rev band_pass_left;
          band_pass = band_pass_left @ [band_pass_center] @ band_pass_right
      in map (\<lambda>v. fdiv v (Fin (2 * band))) band_pass)"

text \<open>
  The bank of filters; \<open>filters[c, 0, i]\<close> of the source is element \<open>i\<close> of row \<open>c\<close>.
  The final \<open>view(out_channels, 1, kernel_size[0])\<close> needs that many rows of that
  length.
\<close>

definition get_sinc_filters :: "Conv \<Rightarrow> error + fval list list" where
  "get_sinc_filters self =
     thenE (attr (sinc self)) (\<lambda>ss.
       (let band_pass = map2 (sinc_row (p_n ss) (p_window ss)) (sinc_low self ss) (sinc_high self ss)
        in thenE (subscript (kernel_size self) 0) (\<lambda>k.
           if int (length band_pass) = out_channels self \<and>
              list_all (\<lambda>row. int (length row) = k) band_pass
           then Inr band_pass else Inl RuntimeError)))"


section \<open>The forward pass\<close>

text \<open>
  \<open>forward\<close> on the shape \<open>x\<close> of the input; it returns the layer, which \<open>init_params\<close>
  may have changed, and the shape of the output.
\<close>

definition forward :: "Conv \<Rightarrow> int list \<Rightarrow> bool \<Rightarrow> error + (Conv \<times> int list)" where
  "forward self0 x0 do_init =
     thenE (if do_init then init_params self0 x0 else Inr self0) (\<lambda>self.
     thenE (transpose_1_last x0) (\<lambda>x1.
     thenE (if reshape_conv1d self
            then thenE (py_index x1 0) (\<lambda>o0.
                 thenE (py_index x1 1) (\<lambda>o1.
                 thenE (py_index x1 2) (\<lambda>o2.
                 thenE (py_index x1 3) (\<lambda>o3.
                 reshape x1 [o0, o1 * o2, o3]))))
            else Inr x1) (\<lambda>x2.
     thenE (if unsqueeze self then unsqueeze_1 x2 else Inr x2) (\<lambda>x3.
     thenE (if padding self
            then manage_padding self x3 (kernel_size self) (dilation self) (stride self)
            else Inr x3) (\<lambda>x4.
     thenE (if sinc_conv self
            then thenE (get_sinc_filters self) (\<lambda>sinc_filters.
                 thenE (subscript (kernel_size self) 0) (\<lambda>k.
                 thenE (subscript (stride self) 0) (\<lambda>s.
                 thenE (subscript (dilation self) 0) (\<lambda>d.
                 F_conv1d x4 [out_channels self, 1, k] s d))))
            else thenE (attr (conv self)) (\<lambda>m. apply_conv m x4)) (\<lambda>wx.
     thenE (if unsqueeze self then squeeze_1 wx else Inr wx) (\<lambda>wx1.
     thenE (if reshape_conv1d self
            then thenE (py_index x1 0) (\<lambda>o0.
                 thenE (py_index wx1 1) (\<lambda>w1.
                 thenE (py_index wx1 2) (\<lambda>w2.
                 thenE (py_index wx1 3) (\<lambda>w3.
                 reshape wx1 [o0, w1, w2, w3]))))
            else Inr wx1) (\<lambda>wx2.
     thenE (transpose_1_last wx2) (\<lambda>wx3.
     Inr (self, wx3))))))))))"

section \<open>Properties of the constructor\<close>

lemmas ctor_defs = Conv_default_def Conv_init_def kernel_check_def thenE_def

lemmas init_defs = init_params_def init_conv1d_def init_conv2d_def subscript_def py_index_def
  attr_def new_Conv1d_def new_Conv2d_def conv_ctor_def Let_def

lemma init_conv1d_conv2d: "init_conv1d self x = Inr s \<Longrightarrow> conv2d s = conv2d self"
  by (auto simp: init_conv1d_def thenE_def Let_def split: if_splits sum.splits)

lemma init_sinc_conv_conv2d: "init_sinc_conv self x = Inr s \<Longrightarrow> conv2d s = conv2d self"
  by (auto simp: init_sinc_conv_def thenE_def Let_def dest: init_conv1d_conv2d
      split: if_splits sum.splits)

lemma init_params_1d:
  "conv1d c \<Longrightarrow> \<not> conv2d c \<Longrightarrow>
   init_params c x = (if sinc_conv c then init_sinc_conv c x else init_conv1d c x)"
  by (auto simp: init_params_def thenE_def dest: init_conv1d_conv2d init_sinc_conv_conv2d
      split: sum.splits)

lemma init_params_2d: "\<not> conv1d c \<Longrightarrow> conv2d c \<Longrightarrow> init_params c x = init_conv2d c x"
  by (simp add: init_params_def thenE_def)

text \<open>
  Claim C2. The constructor chooses among three modes from the arity of \<open>kernel_size\<close>
  and the flag \<open>sinc_conv\<close>. An odd integer or a one-element sequence selects the 1D
  mode, in which \<open>init_params\<close> runs \<open>_init_conv1d\<close>, or \<open>_init_sinc_conv\<close> when
  \<open>sinc_conv\<close> is set. A two-element sequence of odd sizes selects the 2D mode, in which
  \<open>init_params\<close> runs \<open>_init_conv2d\<close>. With \<open>sinc_conv\<close> set and a two-element
  \<open>kernel_size\<close> the constructor raises, whatever the other arguments are.
\<close>

theorem kernel_dispatch:
  "(k mod 2 \<noteq> 0 \<and> ks \<in> {PyInt k, PyTuple [k], PyList [k]} \<longrightarrow>
      (\<exists>c. Conv_init oc ks st dl pd gr bi pm sc sr mlh mbh = Inr c \<and> conv1d c \<and> \<not> conv2d c \<and>
           sinc_conv c = sc \<and>
           (\<forall>x. init_params c x = (if sc then init_sinc_conv c x else init_conv1d c x)))) \<and>
   (k1 mod 2 \<noteq> 0 \<and> k2 mod 2 \<noteq> 0 \<and> ks2 \<in> {PyTuple [k1, k2], PyList [k1, k2]} \<longrightarrow>
      (\<exists>c. Conv_init oc ks2 st dl pd gr bi pm False sr mlh mbh = Inr c \<and> conv2d c \<and>
           \<not> conv1d c \<and> \<not> sinc_conv c \<and> (\<forall>x. init_params c x = init_conv2d c x))) \<and>
   (ks2 \<in> {PyTuple [k1, k2], PyList [k1, k2]} \<longrightarrow>
      isl (Conv_init oc ks2 st dl pd gr bi pm True sr mlh mbh))"
proof (intro conjI impI)
  assume "k mod 2 \<noteq> 0 \<and> ks \<in> {PyInt k, PyTuple [k], PyList [k]}"
  then obtain c where c: "Conv_init oc ks st dl pd gr bi pm sc sr mlh mbh = Inr c"
    "conv1d c" "\<not> conv2d c" "sinc_conv c = sc"
    by (auto simp: Conv_init_def kernel_check_def thenE_def)
  with init_params_1d [of c]
  show "\<exists>c. Conv_init oc ks st dl pd gr bi pm sc sr mlh mbh = Inr c \<and> conv1d c \<and> \<not> conv2d c \<and>
           sinc_conv c = sc \<and>
           (\<forall>x. init_params c x = (if sc then init_sinc_conv c x else init_conv1d c x))"
    by auto
next
  assume "k1 mod 2 \<noteq> 0 \<and> k2 mod 2 \<noteq> 0 \<and> ks2 \<in> {PyTuple [k1, k2], PyList [k1, k2]}"
  then obtain c where c: "Conv_init oc ks2 st dl pd gr bi pm False sr mlh mbh = Inr c"
    "conv2d c" "\<not> conv1d c" "\<not> sinc_conv c"
    by (auto simp: Conv_init_def kernel_check_def thenE_def)
  with init_params_2d [of c]
  show "\<exists>c. Conv_init oc ks2 st dl pd gr bi pm False sr mlh mbh = Inr c \<and> conv2d c \<and>
           \<not> conv1d c \<and> \<not> sinc_conv c \<and> (\<forall>x. init_params c x = init_conv2d c x)"
    by auto
next
  assume "ks2 \<in> {PyTuple [k1, k2], PyList [k1, k2]}"
  then show "isl (Conv_init oc ks2 st dl pd gr bi pm True sr mlh mbh)"
    by (auto simp: Conv_init_def kernel_check_def thenE_def split: sum.splits)
qed

theorem kernel_dispatch_witness:
  "(\<exists>c. Conv_init 8 (PyInt 129) (PyTuple [1, 1]) (PyTuple [1, 1]) True 1 True ''reflect'' True
          16000 50 50 = Inr c \<and>
        conv1d c \<and> \<not> conv2d c \<and> sinc_conv c \<and> (\<forall>x. init_params c x = init_sinc_conv c x)) \<and>
   (\<exists>c. Conv_init 8 (PyTuple [11, 5]) (PyTuple [1, 1]) (PyTuple [1, 1]) True 1 True ''reflect''
          False 16000 50 50 = Inr c \<and>
        conv2d c \<and> \<not> conv1d c \<and> \<not> sinc_conv c \<and> (\<forall>x. init_params c x = init_conv2d c x)) \<and>
   isl (Conv_init 8 (PyTuple [11, 5]) (PyTuple [1, 1]) (PyTuple [1, 1]) True 1 True ''reflect''
          True 16000 50 50)"
  using kernel_dispatch [of 129 "PyInt 129" 8 "PyTuple [1, 1]" "PyTuple [1, 1]" True 1 True
      "''reflect''" True 16000 50 50 11 5 "PyTuple [11, 5]"]
  by simp

text \<open>
  An even size in a one-element tuple, in a list, or given as an integer raises
  \<open>ValueError\<close>, as the message of the source intends.
\<close>

lemma even_kernel_raises_ValueError:
  "k mod 2 = 0 \<Longrightarrow> ks \<in> {PyInt k, PyTuple [k], PyList [k], PyList [k, k']} \<Longrightarrow>
   Conv_init oc ks st dl pd gr bi pm sc sr mlh mbh = Inl ValueError"
  by (auto simp: Conv_init_def kernel_check_def thenE_def)

text \<open>
  Claim C9. The constructor is meant to raise \<open>ValueError\<close> whenever an element of
  \<open>kernel_size\<close> is even. For the two-element tuple \<open>(4, 5)\<close> the formatting of the
  message fails first, and the constructor raises \<open>TypeError\<close> instead.
\<close>

theorem even_kernel_pair_raises_TypeError:
  "Conv_default 25 (PyTuple [4, 5]) = Inl TypeError"
  by (simp add: Conv_default_def Conv_init_def kernel_check_def thenE_def)

section \<open>Properties of the initialisation\<close>

lemma init_conv1d_in_channels:
  "init_conv1d c x = Inr c' \<Longrightarrow>
     (length x = 2 \<longrightarrow> in_channels c' = Some 1) \<and>
     (length x = 3 \<longrightarrow> in_channels c' = Some (x ! 2)) \<and>
     (length x = 4 \<longrightarrow> in_channels c' = Some (x ! 2 * x ! 3))"
  by (auto simp: init_conv1d_def thenE_def Let_def split: if_splits sum.splits)

lemma init_sinc_conv_in_channels:
  "init_sinc_conv c x = Inr c' \<Longrightarrow>
   \<exists>c1. init_conv1d c x = Inr c1 \<and> in_channels c' = in_channels c1"
  by (auto simp: init_sinc_conv_def thenE_def Let_def split: if_splits sum.splits)

lemma init_conv2d_in_channels:
  "init_conv2d c x = Inr c' \<Longrightarrow>
     (length x = 3 \<longrightarrow> in_channels c' = Some 1) \<and>
     (length x = 4 \<longrightarrow> in_channels c' = Some (x ! 3))"
  by (auto simp: init_conv2d_def thenE_def Let_def split: if_splits sum.splits)

text \<open>
  Claim C6. Whenever \<open>init_params\<close> completes on a first input of shape \<open>x\<close>, the
  channel count it stores follows from the rank of \<open>x\<close>: in the 1D mode it is 1 for
  rank 2, \<open>x[2]\<close> for rank 3 and \<open>x[2] * x[3]\<close> for rank 4; in the 2D mode it is 1 for
  rank 3 and \<open>x[3]\<close> for rank 4.
\<close>

theorem in_channels_inferred:
  "init_params c x = Inr c' \<Longrightarrow>
     (conv1d c \<and> \<not> conv2d c \<longrightarrow>
        (length x = 2 \<longrightarrow> in_channels c' = Some 1) \<and>
        (length x = 3 \<longrightarrow> in_channels c' = Some (x ! 2)) \<and>
        (length x = 4 \<longrightarrow> in_channels c' = Some (x ! 2 * x ! 3))) \<and>
     (conv2d c \<and> \<not> conv1d c \<longrightarrow>
        (length x = 3 \<longrightarrow> in_channels c' = Some 1) \<and>
        (length x = 4 \<longrightarrow> in_channels c' = Some (x ! 3)))"
proof (intro conjI impI)
  assume i: "init_params c x = Inr c'" and m: "conv1d c \<and> \<not> conv2d c"
  have *: "(length x = 2 \<longrightarrow> in_channels c' = Some 1) \<and>
     (length x = 3 \<longrightarrow> in_channels c' = Some (x ! 2)) \<and>
     (length x = 4 \<longrightarrow> in_channels c' = Some (x ! 2 * x ! 3))"
  proof (cases "sinc_conv c")
    case True
    with i m have "init_sinc_conv c x = Inr c'" by (simp add: init_params_1d)
    then obtain c1 where "init_conv1d c x = Inr c1" "in_channels c' = in_channels c1"
      using init_sinc_conv_in_channels by blast
    then show ?thesis using init_conv1d_in_channels [of c x c1] by simp
  next
    case False
    with i m have "init_conv1d c x = Inr c'" by (simp add: init_params_1d)
    then show ?thesis by (rule init_conv1d_in_channels)
  qed
  { assume "length x = 2" with * show "in_channels c' = Some 1" by simp }
  { assume "length x = 3" with * show "in_channels c' = Some (x ! 2)" by simp }
  { assume "length x = 4" with * show "in_channels c' = Some (x ! 2 * x ! 3)" by simp }
next
  assume i: "init_params c x = Inr c'" and m: "conv2d c \<and> \<not> conv1d c" and l: "length x = 3"
  then have "init_conv2d c x = Inr c'" by (simp add: init_params_2d)
  with l show "in_channels c' = Some 1" using init_conv2d_in_channels by blast
next
  assume i: "init_params c x = Inr c'" and m: "conv2d c \<and> \<not> conv1d c" and l: "length x = 4"
  then have "init_conv2d c x = Inr c'" by (simp add: init_params_2d)
  with l show "in_channels c' = Some (x ! 3)" using init_conv2d_in_channels by blast
qed

theorem in_channels_inferred_witness:
  "\<exists>c c' d d'. Conv_default 25 (PyTuple [11]) = Inr c \<and> conv1d c \<and> \<not> conv2d c \<and>
     init_params c [10, 16000, 3, 4] = Inr c' \<and> in_channels c' = Some 12 \<and>
     Conv_default 25 (PyTuple [11, 5]) = Inr d \<and> conv2d d \<and> \<not> conv1d d \<and>
     init_params d [10, 100, 40, 128] = Inr d' \<and> in_channels d' = Some 128"
proof -
  have "\<exists>c. Conv_default 25 (PyTuple [11]) = Inr c \<and> conv1d c \<and> \<not> conv2d c \<and>
          (\<exists>c'. init_params c [10, 16000, 3, 4] = Inr c')"
    by (simp add: ctor_defs init_defs)
  then obtain c c' where c: "Conv_default 25 (PyTuple [11]) = Inr c" "conv1d c" "\<not> conv2d c"
    and i: "init_params c [10, 16000, 3, 4] = Inr c'"
    by blast
  have "\<exists>d. Conv_default 25 (PyTuple [11, 5]) = Inr d \<and> conv2d d \<and> \<not> conv1d d \<and>
          (\<exists>d'. init_params d [10, 100, 40, 128] = Inr d')"
    by (simp add: ctor_defs init_defs)
  then obtain d d' where d: "Conv_default 25 (PyTuple [11, 5]) = Inr d" "conv2d d" "\<not> conv1d d"
    and j: "init_params d [10, 100, 40, 128] = Inr d'"
    by blast
  have "in_channels c' = Some 12"
    using in_channels_inferred [OF i] c by simp
  moreover have "in_channels d' = Some 128"
    using in_channels_inferred [OF j] d by simp
  ultimately show ?thesis
    using c d i j by blast
qed

lemma conv_ctor_swap: "conv_ctor ci co [a, b] g = conv_ctor ci co [b, a] g"
  by (auto simp: conv_ctor_def)

text \<open>What \<open>_init_conv2d\<close> returns when it completes.\<close>

lemma init_conv2d_result:
  assumes "init_conv2d c x = Inr c'"
    and "seq_elems (kernel_size c) = Inr [k1, k2]"
    and "seq_elems (stride c) = Inr [s1, s2]"
    and "seq_elems (dilation c) = Inr [d1, d2]"
  shows "\<exists>ci. c' = c\<lparr>kernel_size := PyTuple [k2, k1], stride := PyTuple [s2, s1],
                dilation := PyTuple [d2, d1],
                unsqueeze := (length x = 3 \<or> unsqueeze c), in_channels := Some ci,
                conv := Some (Conv2d ci (out_channels c) (k2, k1) (s2, s1) (d2, d1)
                                (groups c) (bias c))\<rparr>
           \<and> conv_ctor ci (out_channels c) [k2, k1] (groups c) = Inr ()
           \<and> ci = (if length x = 3 then 1 else x ! 3) \<and> length x \<in> {3, 4}"
  using assms
  by (auto simp: init_conv2d_def thenE_def Let_def subscript_def py_index_def attr_def
      new_Conv2d_def split: if_splits sum.splits)

lemma init_conv2d_again:
  assumes "conv_ctor ci oc [k2, k1] g = Inr ()" and "length x \<in> {3, 4}"
    and "ci = (if length x = 3 then 1 else x ! 3)"
    and "kernel_size c = PyTuple [k2, k1]" and "stride c = PyTuple [s2, s1]"
    and "dilation c = PyTuple [d2, d1]" and "out_channels c = oc" and "groups c = g"
  shows "\<exists>c''. init_conv2d c x = Inr c'' \<and> kernel_size c'' = PyTuple [k1, k2] \<and>
           stride c'' = PyTuple [s1, s2] \<and> dilation c'' = PyTuple [d1, d2]"
proof -
  have ok: "conv_ctor ci (out_channels c) [k1, k2] (groups c) = Inr ()"
    using assms(1,7,8) by (simp add: conv_ctor_swap [of ci oc k2 k1 g])
  show ?thesis
  proof (cases "length x = 3")
    case True
    with assms(3) ok have "conv_ctor 1 (out_channels c) [k1, k2] (groups c) = Inr ()" by simp
    with True assms(4,5,6) show ?thesis
      by (simp add: init_conv2d_def thenE_def Let_def subscript_def py_index_def attr_def
          new_Conv2d_def)
  next
    case False
    with assms(2) have l: "length x = 4" by simp
    with assms(3) ok have "conv_ctor (x ! 3) (out_channels c) [k1, k2] (groups c) = Inr ()"
      by simp
    with l assms(4,5,6) show ?thesis
      by (simp add: init_conv2d_def thenE_def Let_def subscript_def py_index_def attr_def
          new_Conv2d_def)
  qed
qed

text \<open>
  Claim C10. In the 2D mode, every completed call of \<open>init_params\<close> replaces
  \<open>kernel_size\<close>, \<open>stride\<close> and \<open>dilation\<close> by their reversed pairs and leaves the other
  arguments of the constructor as they were. A second call on the same input completes
  too and restores the original order, so for \<open>k1 \<noteq> k2\<close> initialising twice is not the
  same as initialising once.
\<close>

theorem init_2d_swaps:
  assumes "conv2d c" and "\<not> conv1d c"
    and "seq_elems (kernel_size c) = Inr [k1, k2]"
    and "seq_elems (stride c) = Inr [s1, s2]"
    and "seq_elems (dilation c) = Inr [d1, d2]"
    and "init_params c x = Inr c'"
  shows "kernel_size c' = PyTuple [k2, k1] \<and> stride c' = PyTuple [s2, s1] \<and>
         dilation c' = PyTuple [d2, d1] \<and>
         out_channels c' = out_channels c \<and> padding c' = padding c \<and> groups c' = groups c \<and>
         bias c' = bias c \<and> padding_mode c' = padding_mode c \<and> sinc_conv c' = sinc_conv c \<and>
         sample_rate c' = sample_rate c \<and> min_low_hz c' = min_low_hz c \<and>
         min_band_hz c' = min_band_hz c \<and>
         (\<exists>c''. init_params c' x = Inr c'' \<and> kernel_size c'' = PyTuple [k1, k2] \<and>
                stride c'' = PyTuple [s1, s2] \<and> dilation c'' = PyTuple [d1, d2] \<and>
                (k1 \<noteq> k2 \<longrightarrow> kernel_size c'' \<noteq> kernel_size c'))"
proof -
  from assms have i: "init_conv2d c x = Inr c'"
    by (simp add: init_params_2d)
  from init_conv2d_result [OF i assms(3,4,5)] obtain ci where
    c': "c' = c\<lparr>kernel_size := PyTuple [k2, k1], stride := PyTuple [s2, s1],
                dilation := PyTuple [d2, d1],
                unsqueeze := (length x = 3 \<or> unsqueeze c), in_channels := Some ci,
                conv := Some (Conv2d ci (out_channels c) (k2, k1) (s2, s1) (d2, d1)
                                (groups c) (bias c))\<rparr>"
    and ok: "conv_ctor ci (out_channels c) [k2, k1] (groups c) = Inr ()"
    and ci: "ci = (if length x = 3 then 1 else x ! 3)" and len: "length x \<in> {3, 4}"
    by blast
  have flags: "conv2d c'" "\<not> conv1d c'"
    using assms(1,2) by (simp_all add: c')
  have "\<exists>c''. init_conv2d c' x = Inr c'' \<and> kernel_size c'' = PyTuple [k1, k2] \<and>
           stride c'' = PyTuple [s1, s2] \<and> dilation c'' = PyTuple [d1, d2]"
    by (rule init_conv2d_again [OF ok len ci]) (simp_all add: c')
  then obtain c'' where again: "init_params c' x = Inr c''" "kernel_size c'' = PyTuple [k1, k2]"
      "stride c'' = PyTuple [s1, s2]" "dilation c'' = PyTuple [d1, d2]"
    using flags by (auto simp: init_params_2d)
  have "k1 \<noteq> k2 \<longrightarrow> kernel_size c'' \<noteq> kernel_size c'"
    by (simp add: again c')
  with again have "\<exists>c''. init_params c' x = Inr c'' \<and> kernel_size c'' = PyTuple [k1, k2] \<and>
                stride c'' = PyTuple [s1, s2] \<and> dilation c'' = PyTuple [d1, d2] \<and>
                (k1 \<noteq> k2 \<longrightarrow> kernel_size c'' \<noteq> kernel_size c')"
    by blast
  then show ?thesis
    by (simp add: c')
qed

theorem init_2d_swaps_witness:
  "\<exists>c c' c''. Conv_init 25 (PyTuple [11, 5]) (PyTuple [1, 2]) (PyTuple [3, 1]) True 1 True
        ''reflect'' False 16000 50 50 = Inr c \<and>
     init_params c [10, 100, 40, 128] = Inr c' \<and>
     kernel_size c' = PyTuple [5, 11] \<and> stride c' = PyTuple [2, 1] \<and>
     dilation c' = PyTuple [1, 3] \<and>
     init_params c' [10, 100, 40, 128] = Inr c'' \<and>
     kernel_size c'' = PyTuple [11, 5] \<and> stride c'' = PyTuple [1, 2] \<and>
     dilation c'' = PyTuple [3, 1] \<and> kernel_size c'' \<noteq> kernel_size c'"
proof -
  have "\<exists>c. Conv_init 25 (PyTuple [11, 5]) (PyTuple [1, 2]) (PyTuple [3, 1]) True 1 True
          ''reflect'' False 16000 50 50 = Inr c \<and> conv2d c \<and> \<not> conv1d c \<and>
          seq_elems (kernel_size c) = Inr [11, 5] \<and> seq_elems (stride c) = Inr [1, 2] \<and>
          seq_elems (dilation c) = Inr [3, 1] \<and>
          (\<exists>c'. init_params c [10, 100, 40, 128] = Inr c')"
    by (simp add: ctor_defs init_defs)
  then obtain c c' where c: "Conv_init 25 (PyTuple [11, 5]) (PyTuple [1, 2]) (PyTuple [3, 1])
          True 1 True ''reflect'' False 16000 50 50 = Inr c"
    and h: "conv2d c" "\<not> conv1d c" "seq_elems (kernel_size c) = Inr [11, 5]"
      "seq_elems (stride c) = Inr [1, 2]" "seq_elems (dilation c) = Inr [3, 1]"
      "init_params c [10, 100, 40, 128] = Inr c'"
    by blast
  from init_2d_swaps [OF h] c h(6) show ?thesis
    by auto
qed

section \<open>Properties of the mel scale and of the sinc filters\<close>

lemma to_hz_to_mel: "- 700 < hz \<Longrightarrow> to_hz (to_mel hz) = hz"
  by (simp add: to_hz_def to_mel_def)

lemma to_mel_to_hz: "to_mel (to_hz m) = m"
proof -
  have "1 + to_hz m / 700 = 10 powr (m / 2595)"
    by (simp add: to_hz_def diff_divide_distrib)
  then show ?thesis
    by (simp add: to_mel_def)
qed

text \<open>
  Claim C7. Over the reals the two conversions are inverse to each other: for every
  frequency \<open>hz \<ge> 0\<close>, \<open>_to_hz(_to_mel(hz)) = hz\<close>, and for every mel value \<open>m \<ge> 0\<close>,
  \<open>_to_mel(_to_hz(m)) = m\<close>.
\<close>

theorem mel_inverse:
  "(0 \<le> hz \<longrightarrow> to_hz (to_mel hz) = hz) \<and> (0 \<le> m \<longrightarrow> to_mel (to_hz m) = m)"
  by (simp add: to_hz_to_mel to_mel_to_hz)

theorem mel_inverse_witness:
  "(0::real) \<le> 700 \<and> to_hz (to_mel 700) = 700 \<and>
   (0::real) \<le> 2595 \<and> to_mel (to_hz 2595) = 2595"
  using mel_inverse [of 700 2595] by simp

lemma clamp_le_hi: "clamp x lo hi \<le> hi"
  by (simp add: clamp_def)

text \<open>
  Claim C3. For every value of the learnable parameters, the low cutoff of every filter,
  \<open>min_low_hz + |low_hz_|\<close>, is at least \<open>min_low_hz\<close>, and the high cutoff, which is
  clamped, is at most \<open>sample_rate / 2\<close>.
\<close>

theorem sinc_cutoffs:
  "(\<forall>lo \<in> set (sinc_low self ss). min_low_hz self \<le> lo) \<and>
   (\<forall>hi \<in> set (sinc_high self ss). hi \<le> sample_rate self / 2)"
proof
  show "\<forall>lo \<in> set (sinc_low self ss). min_low_hz self \<le> lo"
    by (auto simp: sinc_low_def)
  show "\<forall>hi \<in> set (sinc_high self ss). hi \<le> sample_rate self / 2"
    unfolding sinc_high_def
    by (auto simp del: divide_le_eq_numeral1 le_divide_eq_numeral1 intro: clamp_le_hi)
qed

theorem sinc_cutoffs_witness:
  "\<exists>c. Conv_init 1 (PyTuple [3]) (PyTuple [1, 1]) (PyTuple [1, 1]) True 1 True ''reflect'' True
         16000 50 50 = Inr c \<and>
       sinc_low c \<lparr>p_low_hz = [- 30], p_band_hz = [100000], p_window = [], p_n = []\<rparr> = [80] \<and>
       sinc_high c \<lparr>p_low_hz = [- 30], p_band_hz = [100000], p_window = [], p_n = []\<rparr> = [8000] \<and>
       (\<forall>lo \<in> set (sinc_low c \<lparr>p_low_hz = [- 30], p_band_hz = [100000], p_window = [],
                                p_n = []\<rparr>). min_low_hz c \<le> lo) \<and>
       (\<forall>hi \<in> set (sinc_high c \<lparr>p_low_hz = [- 30], p_band_hz = [100000], p_window = [],
                                 p_n = []\<rparr>). hi \<le> sample_rate c / 2)"
proof -
  have "\<exists>c. Conv_init 1 (PyTuple [3]) (PyTuple [1, 1]) (PyTuple [1, 1]) True 1 True ''reflect''
          True 16000 50 50 = Inr c \<and>
       sinc_low c \<lparr>p_low_hz = [- 30], p_band_hz = [100000], p_window = [], p_n = []\<rparr> = [80] \<and>
       sinc_high c \<lparr>p_low_hz = [- 30], p_band_hz = [100000], p_window = [], p_n = []\<rparr> = [8000]"
    by (simp add: ctor_defs sinc_low_def sinc_high_def clamp_def)
  then obtain c where c: "Conv_init 1 (PyTuple [3]) (PyTuple [1, 1]) (PyTuple [1, 1]) True 1 True
          ''reflect'' True 16000 50 50 = Inr c"
       "sinc_low c \<lparr>p_low_hz = [- 30], p_band_hz = [100000], p_window = [], p_n = []\<rparr> = [80]"
       "sinc_high c \<lparr>p_low_hz = [- 30], p_band_hz = [100000], p_window = [], p_n = []\<rparr> = [8000]"
    by blast
  from sinc_cutoffs [of c "\<lparr>p_low_hz = [- 30], p_band_hz = [100000], p_window = [], p_n = []\<rparr>"]
  show ?thesis
    using c by blast
qed

section \<open>Properties of the floating-point values\<close>

lemma round_half_even_of_int: "round_half_even (real_of_int m) = m"
  by (simp add: round_half_even_def)

text \<open>
  A number \<open>m / 2 ^ j\<close> with \<open>|m| < 2 ^ 53\<close> is a double: rounding leaves it as it is.
\<close>

lemma float64_round_dyadic:
  assumes x: "x = real_of_int m / 2 ^ j" and m: "\<bar>m\<bar> < 2 ^ 53" and j: "j \<le> 1"
  shows "float64_round x = x"
proof (cases "m = 0")
  case True
  then show ?thesis by (simp add: x float64_round_def)
next
  case False
  then have "1 \<le> \<bar>m\<bar>" by simp
  then have "real_of_int 1 \<le> real_of_int \<bar>m\<bar>" by (simp only: of_int_le_iff)
  then have m1: "1 \<le> \<bar>real_of_int m\<bar>" by simp
  have x0: "x \<noteq> 0" using False by (simp add: x)
  have ax: "\<bar>x\<bar> = \<bar>real_of_int m\<bar> / 2 ^ j" by (simp add: x)
  define e where "e = \<lfloor>log 2 \<bar>x\<bar>\<rfloor>"
  have lo: "- int j \<le> e"
  proof -
    have "2 powr (- real j) \<le> \<bar>x\<bar>"
      using m1 by (simp add: ax powr_minus powr_realpow divide_simps)
    then have "- real j \<le> log 2 \<bar>x\<bar>"
      using x0 by (simp add: le_log_iff)
    then show ?thesis
      unfolding e_def by (simp add: le_floor_iff)
  qed
  have hi: "e \<le> 52 - int j"
  proof -
    have "real_of_int \<bar>m\<bar> < real_of_int (2 ^ 53)"
      using m by (simp only: of_int_less_iff)
    then have "\<bar>real_of_int m\<bar> < 2 ^ 53"
      by simp
    then have "\<bar>x\<bar> < 2 powr (53 - real j)"
      using j by (simp add: ax powr_diff powr_realpow divide_simps)
    then have "log 2 \<bar>x\<bar> < 53 - real j"
      using x0 by (simp add: log_less_iff)
    then have "\<lfloor>log 2 \<bar>x\<bar>\<rfloor> < 53 - int j"
      by (simp add: floor_less_iff)
    then show ?thesis unfolding e_def by simp
  qed
  from lo j have emax: "max e (- 1022) = e" by simp
  define u where "u = 2 powr real_of_int (e - 52)"
  have u0: "u \<noteq> 0" by (simp add: u_def)
  define p where "p = nat (52 - e - int j)"
  have pe: "int p = 52 - e - int j" using hi by (simp add: p_def)
  have "x / u = x * 2 powr real_of_int (52 - e)"
    by (simp add: u_def powr_minus [symmetric] divide_inverse)
  also have "real_of_int (52 - e) = real j + real p"
    using pe by simp
  also have "x * 2 powr (real j + real p) = real_of_int m * 2 ^ p"
    by (simp add: x powr_add powr_realpow)
  finally have xu: "x / u = real_of_int (m * 2 ^ p)" by simp
  have "float64_round x = u * real_of_int (round_half_even (x / u))"
    using x0 by (simp add: float64_round_def e_def [symmetric] emax u_def Let_def)
  also have "\<dots> = u * (x / u)"
    unfolding xu round_half_even_of_int ..
  also have "\<dots> = x" using u0 by simp
  finally show ?thesis .
qed

lemma float64_round_of_int: "\<bar>n\<bar> < 2 ^ 53 \<Longrightarrow> float64_round (real_of_int n) = real_of_int n"
  using float64_round_dyadic [of "real_of_int n" n 0] by simp

lemma float64_round_half:
  "\<bar>n\<bar> < 2 ^ 53 \<Longrightarrow> float64_round (real_of_int n / 2) = real_of_int n / 2"
  using float64_round_dyadic [of "real_of_int n / 2" n 1] by simp

lemma below_overflow:
  assumes "\<bar>n\<bar> < (2 :: int) ^ 53"
  shows "\<not> 2 ^ 1024 - 2 ^ 970 \<le> \<bar>real_of_int n\<bar>"
    and "\<not> 2 ^ 1024 - 2 ^ 970 \<le> \<bar>real_of_int n / 2\<bar>"
proof -
  have "real_of_int \<bar>n\<bar> < real_of_int (2 ^ 53)"
    using assms by (simp only: of_int_less_iff)
  then have b: "\<bar>real_of_int n\<bar> < 2 ^ 53"
    by simp
  have t: "(2 :: real) ^ 53 < 2 ^ 1024 - 2 ^ 970"
    by simp
  from b t show "\<not> 2 ^ 1024 - 2 ^ 970 \<le> \<bar>real_of_int n\<bar>"
    by linarith
  have "\<bar>real_of_int n / 2\<bar> \<le> \<bar>real_of_int n\<bar>"
    by simp
  with b t show "\<not> 2 ^ 1024 - 2 ^ 970 \<le> \<bar>real_of_int n / 2\<bar>"
    by linarith
qed

lemma int_truediv_one: "\<bar>a\<bar> < 2 ^ 53 \<Longrightarrow> int_truediv a 1 = Inr (real_of_int a)"
  using below_overflow(1) [of a] by (simp add: int_truediv_def float64_round_of_int)

lemma int_truediv_half: "\<bar>k\<bar> < 2 ^ 53 \<Longrightarrow> int_truediv k 2 = Inr (real_of_int k / 2)"
  using below_overflow(2) [of k] by (simp add: int_truediv_def float64_round_half)

lemma int_to_float_exact: "\<bar>n\<bar> < 2 ^ 53 \<Longrightarrow> int_to_float n = Inr (real_of_int n)"
  using below_overflow(1) [of n] by (simp add: int_to_float_def float64_round_of_int)

text \<open>
  Above \<open>2 ^ 53\<close> not every integer is a double: \<open>2 ^ 53 + 1\<close> lies halfway between two
  doubles and is rounded to the one with the even mantissa.
\<close>

lemma float64_round_above: "float64_round (2 ^ 53 + 1) = 2 ^ 53"
proof -
  have l: "\<lfloor>log 2 \<bar>2 ^ 53 + 1 :: real\<bar>\<rfloor> = 53"
    by (subst floor_log_eq_powr_iff) (simp_all add: powr_realpow)
  have e: "max (53 :: int) (- 1022) - 52 = 1"
    by simp
  have u: "2 powr real_of_int 1 = (2 :: real)"
    by simp
  have f: "\<lfloor>(2 ^ 53 + 1 :: real) / 2\<rfloor> = 2 ^ 52"
    by (rule floor_unique) simp_all
  have r: "round_half_even ((2 ^ 53 + 1) / 2) = 2 ^ 52"
    unfolding round_half_even_def Let_def f by simp
  show ?thesis
    unfolding float64_round_def Let_def l e u r by simp
qed

section \<open>Properties of the sinc initialisation\<close>

lemmas sinc_init_defs = init_sinc_conv_def linspace_def arange_def py_int_def

lemma sinc_row_rev: "rev (sinc_row ns win lo hi) = sinc_row ns win lo hi"
  by (simp add: sinc_row_def Let_def rev_map)

lemma sinc_row_length: "length (sinc_row ns win lo hi) = 2 * min (length ns) (length win) + 1"
  by (simp add: sinc_row_def Let_def)


lemma odd_half_floor:
  assumes "k mod 2 = 1" and "0 < k"
  shows "py_int (real_of_int k / 2) = (k - 1) div 2"
proof -
  from assms obtain j where k: "k = 2 * j + 1" and j: "0 \<le> j"
    by (metis add.commute mult_div_mod_eq pos_imp_zdiv_nonneg_iff zero_less_numeral less_imp_le
        add_diff_cancel_right' nonzero_mult_div_cancel_left zero_neq_numeral)
  have "\<lfloor>real_of_int k / 2\<rfloor> = j"
    unfolding k by (rule floor_unique) (simp_all add: field_simps)
  with j show ?thesis
    by (simp add: py_int_def k)
qed

lemma odd_half_ceiling:
  assumes "k mod 2 = 1"
  shows "\<lceil>real_of_int (k - 1) / 2\<rceil> = (k - 1) div 2"
proof -
  from assms obtain j where k: "k = 2 * j + 1"
    by (metis add.commute mult_div_mod_eq)
  show ?thesis
    by (simp add: k)
qed

lemma linspace_length: "linspace a b n = Inr xs \<Longrightarrow> length xs = nat n"
  by (auto simp: linspace_def split: if_splits)

lemma linspace_nth:
  "linspace a b n = Inr xs \<Longrightarrow> i < length xs \<Longrightarrow>
   xs ! i = a + real i * ((b - a) / real_of_int (n - 1))"
  by (auto simp: linspace_def split: if_splits)

lemma linspace_ok: "0 \<le> n \<Longrightarrow> \<exists>xs. linspace a b n = Inr xs"
  by (simp add: linspace_def)

lemma arange_length: "arange a b = Inr xs \<Longrightarrow> length xs = nat \<lceil>b - a\<rceil>"
  by (auto simp: arange_def split: if_splits)

lemma init_conv1d_frame:
  "init_conv1d c x = Inr c1 \<Longrightarrow>
     out_channels c1 = out_channels c \<and> kernel_size c1 = kernel_size c \<and>
     stride c1 = stride c \<and> dilation c1 = dilation c \<and> padding c1 = padding c \<and>
     groups c1 = groups c \<and> bias c1 = bias c \<and> padding_mode c1 = padding_mode c \<and>
     sinc_conv c1 = sinc_conv c \<and> sample_rate c1 = sample_rate c \<and>
     min_low_hz c1 = min_low_hz c \<and> min_band_hz c1 = min_band_hz c \<and>
     conv1d c1 = conv1d c \<and> conv2d c1 = conv2d c \<and> sinc c1 = sinc c"
  by (auto simp: init_conv1d_def thenE_def Let_def split: if_splits sum.splits)

lemma init_sinc_conv_result:
  assumes "init_sinc_conv c x = Inr c'"
  shows "\<exists>c1 mel k half n_lin km1 ar.
     init_conv1d c x = Inr c1 \<and>
     linspace (to_mel (min_low_hz c))
       (to_mel (sample_rate c / 2 - (min_low_hz c + min_band_hz c))) (out_channels c + 1) = Inr mel \<and>
     subscript (kernel_size c) 0 = Inr k \<and>
     int_truediv k 2 = Inr half \<and>
     linspace 0 (half - 1) (py_int half) = Inr n_lin \<and>
     int_to_float (k - 1) = Inr km1 \<and>
     arange (- (km1 / 2)) 0 = Inr ar \<and>
     c' = c1\<lparr>sinc := Some
            \<lparr>p_low_hz = butlast (map to_hz mel),
             p_band_hz = map2 (\<lambda>a b. a - b) (tl (map to_hz mel)) (butlast (map to_hz mel)),
             p_window = map (\<lambda>t. 0.54 - 0.46 * cos (2 * pi * t / real_of_int k)) n_lin,
             p_n = map (\<lambda>t. fdiv (Fin (2 * pi * t)) (Fin (sample_rate c))) ar\<rparr>\<rparr>"
proof -
  from assms obtain c1 where c1: "init_conv1d c x = Inr c1"
    by (auto simp: init_sinc_conv_def thenE_def split: sum.splits)
  note fr = init_conv1d_frame [OF c1]
  from assms show ?thesis
    unfolding init_sinc_conv_def c1 thenE_def Let_def
    by (auto simp: fr split: sum.splits)
qed

lemma band_nth:
  "i + 1 < length hz \<Longrightarrow> map2 (\<lambda>a b. a - b) (tl hz) (butlast hz) ! i = hz ! (i + 1) - (hz ! i :: real)"
  by (simp add: nth_tl nth_butlast)

text \<open>
  Claim C4. After \<open>_init_sinc_conv\<close>, the initial \<open>low_hz_\<close> are the first
  \<open>out_channels\<close> of \<open>out_channels + 1\<close> boundary frequencies \<open>hz\<close>, the initial
  \<open>band_hz_\<close> are their consecutive differences, and the boundaries are equally
  spaced on the mel scale: the mel value of boundary \<open>i\<close> is
  \<open>_to_mel(min_low_hz) + i * (_to_mel(high_hz) - _to_mel(min_low_hz)) / out_channels\<close>
  with \<open>high_hz = sample_rate / 2 - (min_low_hz + min_band_hz)\<close>; the first boundary is
  \<open>min_low_hz\<close> and the last one \<open>high_hz\<close>. Both ends are taken in the domain of
  \<open>_to_mel\<close>.
\<close>

theorem sinc_init_mel_spaced:
  assumes "init_sinc_conv c x = Inr c'"
    and "- 700 < min_low_hz c"
    and "- 700 < sample_rate c / 2 - (min_low_hz c + min_band_hz c)"
  shows "\<exists>ss hz. sinc c' = Some ss \<and> length hz = nat (out_channels c + 1) \<and>
      p_low_hz ss = take (nat (out_channels c)) hz \<and>
      length (p_band_hz ss) = nat (out_channels c) \<and>
      (\<forall>i < nat (out_channels c). p_band_hz ss ! i = hz ! (i + 1) - hz ! i) \<and>
      (\<forall>i < length hz.
          to_mel (hz ! i) =
            to_mel (min_low_hz c) +
            real i * ((to_mel (sample_rate c / 2 - (min_low_hz c + min_band_hz c)) -
                       to_mel (min_low_hz c)) / real_of_int (out_channels c))) \<and>
      (0 < out_channels c \<longrightarrow>
          hz ! 0 = min_low_hz c \<and>
          last hz = sample_rate c / 2 - (min_low_hz c + min_band_hz c))"
proof -
  define a where "a = to_mel (min_low_hz c)"
  define b where "b = to_mel (sample_rate c / 2 - (min_low_hz c + min_band_hz c))"
  from init_sinc_conv_result [OF assms(1)] obtain c1 mel ss where
    mel: "linspace a b (out_channels c + 1) = Inr mel"
    and c': "c' = c1\<lparr>sinc := Some ss\<rparr>"
    and low: "p_low_hz ss = butlast (map to_hz mel)"
    and band: "p_band_hz ss = map2 (\<lambda>a b. a - b) (tl (map to_hz mel)) (butlast (map to_hz mel))"
    unfolding a_def b_def by force
  define hz where "hz = map to_hz mel"
  have len: "length hz = nat (out_channels c + 1)"
    using linspace_length [OF mel] by (simp add: hz_def)
  have len1: "length hz - 1 = nat (out_channels c)"
    using len by simp
  have nth: "to_mel (hz ! i) = a + real i * ((b - a) / real_of_int (out_channels c))"
    if "i < length hz" for i
    using that linspace_nth [OF mel, of i] by (simp add: hz_def to_mel_to_hz)
  have p1: "p_low_hz ss = take (nat (out_channels c)) hz"
    using low len1 by (simp add: hz_def [symmetric] butlast_conv_take)
  have p2: "length (p_band_hz ss) = nat (out_channels c)"
    using band len1 by (simp add: hz_def [symmetric])
  have p3: "p_band_hz ss ! i = hz ! (i + 1) - hz ! i" if "i < nat (out_channels c)" for i
  proof -
    from that len have "i + 1 < length hz" by simp
    then show ?thesis
      unfolding band hz_def [symmetric] by (rule band_nth)
  qed
  have p5: "hz ! 0 = min_low_hz c \<and> last hz = sample_rate c / 2 - (min_low_hz c + min_band_hz c)"
    if pos: "0 < out_channels c"
  proof -
    from pos len have ne: "mel \<noteq> []" "0 < length mel" "length mel - 1 < length mel"
      by (auto simp: hz_def)
    have "mel ! 0 = a"
      using linspace_nth [OF mel, of 0] ne by simp
    moreover have "mel ! (length mel - 1) = b"
    proof -
      have r: "real (length mel - 1) = real_of_int (out_channels c)"
        using len pos by (simp add: hz_def)
      have "mel ! (length mel - 1) =
              a + real_of_int (out_channels c) * ((b - a) / real_of_int (out_channels c))"
        using linspace_nth [OF mel ne(3)] unfolding r by simp
      also have "\<dots> = b"
        using pos by simp
      finally show ?thesis .
    qed
    ultimately have "hz ! 0 = to_hz a" "last hz = to_hz b"
      using ne by (simp_all add: hz_def last_map last_conv_nth)
    with assms(2,3) show ?thesis
      by (simp add: a_def b_def to_hz_to_mel)
  qed
  from len p1 p2 p3 nth p5 have "sinc c' = Some ss \<and> length hz = nat (out_channels c + 1) \<and>
      p_low_hz ss = take (nat (out_channels c)) hz \<and>
      length (p_band_hz ss) = nat (out_channels c) \<and>
      (\<forall>i < nat (out_channels c). p_band_hz ss ! i = hz ! (i + 1) - hz ! i) \<and>
      (\<forall>i < length hz. to_mel (hz ! i) = a + real i * ((b - a) / real_of_int (out_channels c))) \<and>
      (0 < out_channels c \<longrightarrow>
          hz ! 0 = min_low_hz c \<and>
          last hz = sample_rate c / 2 - (min_low_hz c + min_band_hz c))"
    by (simp add: c')
  then show ?thesis
    unfolding a_def b_def by blast
qed

lemma sinc_init_example: "\<exists>c. Conv_init 2 (PyTuple [3]) (PyTuple [1, 1]) (PyTuple [1, 1]) True 1 True ''reflect'' True
       16000 50 50 = Inr c \<and> out_channels c = 2 \<and> min_low_hz c = 50 \<and> min_band_hz c = 50 \<and>
       sample_rate c = 16000 \<and> (\<exists>c'. init_sinc_conv c [10, 4000] = Inr c')"
    using int_truediv_half [of 3] int_to_float_exact [of 2]
    by (simp add: ctor_defs init_defs sinc_init_defs)

theorem sinc_init_mel_spaced_witness:
  "\<exists>c c' ss hz.
     Conv_init 2 (PyTuple [3]) (PyTuple [1, 1]) (PyTuple [1, 1]) True 1 True ''reflect'' True
       16000 50 50 = Inr c \<and>
     init_sinc_conv c [10, 4000] = Inr c' \<and> sinc c' = Some ss \<and> length hz = 3 \<and>
     p_low_hz ss = take 2 hz \<and> length (p_band_hz ss) = 2 \<and>
     (\<forall>i < 2. p_band_hz ss ! i = hz ! (i + 1) - hz ! i) \<and>
     (\<forall>i < length hz. to_mel (hz ! i) = to_mel 50 + real i * ((to_mel 7900 - to_mel 50) / 2)) \<and>
     hz ! 0 = 50 \<and> last hz = 7900"
proof -
  from sinc_init_example obtain c c' where c: "Conv_init 2 (PyTuple [3]) (PyTuple [1, 1]) (PyTuple [1, 1]) True 1 True
       ''reflect'' True 16000 50 50 = Inr c"
    and f: "out_channels c = 2" "min_low_hz c = 50" "min_band_hz c = 50" "sample_rate c = 16000"
    and i: "init_sinc_conv c [10, 4000] = Inr c'"
    by blast
  have h: "- 700 < min_low_hz c" "- 700 < sample_rate c / 2 - (min_low_hz c + min_band_hz c)"
    by (simp_all add: f)
  have "\<exists>ss hz. sinc c' = Some ss \<and> length hz = 3 \<and>
     p_low_hz ss = take 2 hz \<and> length (p_band_hz ss) = 2 \<and>
     (\<forall>i < 2. p_band_hz ss ! i = hz ! (i + 1) - hz ! i) \<and>
     (\<forall>i < length hz. to_mel (hz ! i) = to_mel 50 + real i * ((to_mel 7900 - to_mel 50) / 2)) \<and>
     hz ! 0 = 50 \<and> last hz = 7900"
    using sinc_init_mel_spaced [OF i h] unfolding f by simp
  with c i show ?thesis by blast
qed

lemma init_conv1d_out_nonneg: "init_conv1d c x = Inr c1 \<Longrightarrow> 0 \<le> out_channels c"
  by (auto simp: init_conv1d_def thenE_def Let_def new_Conv1d_def conv_ctor_def
      split: if_splits sum.splits)

lemma sinc_row_finite:
  assumes "\<forall>t \<in> set ns. \<exists>r. t = Fin r \<and> r \<noteq> 0" and "hi \<noteq> lo"
  shows "\<forall>v \<in> set (sinc_row ns win lo hi). \<exists>r. v = Fin r"
proof -
  have left: "\<exists>r. fmul (fdiv (fsub (fsin (fmul (Fin hi) t)) (fsin (fmul (Fin lo) t)))
                  (fdiv t (Fin 2))) (Fin w) = Fin r"
    if "t \<in> set ns" for t w
  proof -
    from assms(1) that obtain r where "t = Fin r" "r \<noteq> 0" by blast
    then show ?thesis by simp
  qed
  define band_pass_left where "band_pass_left =
    map2 (\<lambda>t w. fmul (fdiv (fsub (fsin (fmul (Fin hi) t)) (fsin (fmul (Fin lo) t)))
                                  (fdiv t (Fin 2))) (Fin w)) ns win"
  have l: "\<forall>v \<in> set band_pass_left. \<exists>r. v = Fin r"
    unfolding band_pass_left_def using left by (auto dest!: set_zip_leftD)
  then have all: "\<forall>v \<in> set (band_pass_left @ [Fin (2 * (hi - lo))] @ rev band_pass_left).
                    \<exists>r. v = Fin r"
    by auto
  have d: "\<exists>r. fdiv v (Fin (2 * (hi - lo))) = Fin r" if "\<exists>r. v = Fin r" for v
    using that assms(2) by auto
  have "\<forall>v \<in> set (map (\<lambda>v. fdiv v (Fin (2 * (hi - lo))))
                       (band_pass_left @ [Fin (2 * (hi - lo))] @ rev band_pass_left)).
          \<exists>r. v = Fin r"
    using all d by (simp only: set_map ball_simps) blast
  then show ?thesis
    unfolding sinc_row_def Let_def band_pass_left_def .
qed



text \<open>
  When the stored tensors have the lengths that \<open>_init_sinc_conv\<close> gives them,
  \<open>_get_sinc_filters\<close> returns one row per filter.
\<close>

lemma get_sinc_filters_ok:
  assumes "sinc c = Some ss" and "subscript (kernel_size c) 0 = Inr k"
    and "length (p_n ss) = h" and "length (p_window ss) = h" and "int (2 * h + 1) = k"
    and "length (p_low_hz ss) = n" and "length (p_band_hz ss) = n" and "int n = out_channels c"
  shows "get_sinc_filters c =
           Inr (map2 (sinc_row (p_n ss) (p_window ss)) (sinc_low c ss) (sinc_high c ss))"
proof -
  let ?bank = "map2 (sinc_row (p_n ss) (p_window ss)) (sinc_low c ss) (sinc_high c ss)"
  have len: "length ?bank = n"
    using assms(6,7) by (simp add: sinc_low_def sinc_high_def)
  have "list_all (\<lambda>row. int (length row) = k) ?bank"
    using assms(3,4,5) by (auto simp: list_all_iff sinc_row_length)
  with len assms(1,2,8) show ?thesis
    by (simp add: get_sinc_filters_def thenE_def attr_def Let_def)
qed


text \<open>
  Every filter is a list that reads the same in both directions, whatever the values
  of the parameters are: the right half is a copy of the left one.
\<close>

lemma sinc_bank_mirror:
  "ch < length (map2 (sinc_row ns win) los his) \<Longrightarrow>
   rev (map2 (sinc_row ns win) los his ! ch) = map2 (sinc_row ns win) los his ! ch"
  by (simp add: sinc_row_rev)

lemma sinc_bank_finite:
  assumes "ch < length (map2 (sinc_row ns win) los his)"
    and "\<forall>t \<in> set ns. \<exists>r. t = Fin r \<and> r \<noteq> 0" and "his ! ch \<noteq> los ! ch"
  shows "\<forall>v \<in> set (map2 (sinc_row ns win) los his ! ch). \<exists>r. v = Fin r"
  using assms by (simp add: sinc_row_finite)





section \<open>Properties of the forward pass\<close>

lemmas forward_defs = forward_def transpose_1_last_def reshape_def unsqueeze_1_def squeeze_1_def
  F_pad_def pad_admits_def manage_padding_def conv_out_len_def F_conv1d_def

lemma thenE_Inr_iff: "thenE m f = Inr r \<longleftrightarrow> (\<exists>v. m = Inr v \<and> f v = Inr r)"
  by (cases m) (simp_all add: thenE_def)

lemma thenE_simps: "thenE (Inr v) f = f v" "thenE (Inl e) f = Inl e"
  by (simp_all add: thenE_def)

lemma forward_init: "forward c x True = thenE (init_params c x) (\<lambda>c'. forward c' x False)"
  by (simp add: forward_def thenE_simps)

lemma get_padding_elem_pair: "get_padding_elem L s k d = Inr pad \<Longrightarrow> \<exists>p. pad = [p, p]"
  by (auto simp: get_padding_elem_def thenE_Inr_iff Let_def split: if_splits)

lemma py_int_of_int: "py_int (real_of_int n) = n"
  by (simp add: py_int_def)

text \<open>
  Below \<open>2 ^ 53\<close> every integer is a double, so the quotient by a stride of 1, the
  addition of 1 and \<open>int\<close> are exact.
\<close>

lemma get_padding_elem_stride1:
  assumes "\<bar>L\<bar> + \<bar>d * (k - 1)\<bar> + 1 < 2 ^ 53"
  shows "get_padding_elem L 1 k d = Inr [d * (k - 1) div 2, d * (k - 1) div 2]"
proof -
  have b: "\<bar>L - d * (k - 1) - 1\<bar> < 2 ^ 53" "\<bar>L - d * (k - 1)\<bar> < 2 ^ 53"
    using assms by linarith+
  have q: "int_truediv (L - d * (k - 1) - 1) 1 = Inr (real_of_int (L - d * (k - 1) - 1))"
    using b(1) by (rule int_truediv_one)
  have "real_of_int (L - d * (k - 1) - 1) + 1 = real_of_int (L - d * (k - 1))"
    by simp
  then have p: "py_int (float64_round (real_of_int (L - d * (k - 1) - 1) + 1)) = L - d * (k - 1)"
    using float64_round_of_int [OF b(2)] by (simp only: py_int_of_int)
  show ?thesis
    unfolding get_padding_elem_def q thenE_simps Let_def p by simp
qed

text \<open>
  The bound is needed. For an input length of \<open>2 ^ 53 + 2\<close>, kernel size 1 and
  dilation 1, \<open>L_out\<close> is rounded down to \<open>2 ^ 53\<close> and the padding is 1 on each side,
  where exact arithmetic gives 0.
\<close>

lemma get_padding_elem_rounds: "get_padding_elem (2 ^ 53 + 2) 1 1 1 = Inr [1, 1]"
proof -
  have a: "(2 ^ 53 + 2 - 1 * (1 - 1) - 1 :: int) = 2 ^ 53 + 1"
    by simp
  have n: "\<not> 2 ^ 1024 - 2 ^ 970 \<le> \<bar>real_of_int (2 ^ 53 + 1) / real_of_int 1\<bar>"
    by simp
  have c: "real_of_int (2 ^ 53 + 1) / real_of_int 1 = 2 ^ 53 + 1"
    by simp
  have q: "int_truediv (2 ^ 53 + 1) 1 = Inr (2 ^ 53)"
    unfolding int_truediv_def c float64_round_above using n by simp
  have p: "py_int (2 ^ 53) = 2 ^ 53"
    using py_int_def [of "real_of_int (2 ^ 53)"] by simp
  show ?thesis
    unfolding get_padding_elem_def a q thenE_def sum.case Let_def float64_round_above p by simp
qed

text \<open>
  For a stride above one the quotient only has to exist, that is not to overflow: the
  padding does not depend on it.
\<close>

lemma get_padding_elem_strided:
  assumes "1 < s" and "\<bar>L - k * d\<bar> < 2 ^ 53"
  shows "get_padding_elem L s k d = Inr [k div 2, k div 2]"
proof -
  have "\<bar>real_of_int (L - k * d)\<bar> / real_of_int s \<le> \<bar>real_of_int (L - k * d)\<bar> / 1"
    using assms(1) by (intro divide_left_mono) simp_all
  then have "\<bar>real_of_int (L - k * d) / real_of_int s\<bar> \<le> \<bar>real_of_int (L - k * d)\<bar>"
    using assms(1) by (simp add: abs_divide)
  with below_overflow(1) [OF assms(2)]
  have "\<not> 2 ^ 1024 - 2 ^ 970 \<le> \<bar>real_of_int (L - k * d) / real_of_int s\<bar>"
    by linarith
  with assms(1) obtain q where "int_truediv (L - k * d) s = Inr q"
    by (simp add: int_truediv_def)
  with assms(1) show ?thesis
    by (simp add: get_padding_elem_def thenE_simps Let_def)
qed

lemma F_pad_rank3:
  "F_pad [B, C, T] [p, q] mode = Inr y \<Longrightarrow> y = [B, C, T + p + q]"
  by (auto simp: F_pad_def thenE_def split: if_splits)

lemma F_pad_rank4:
  "F_pad [B, C, F, T] [p, q, p', q'] mode = Inr y \<Longrightarrow> y = [B, C, F + p' + q', T + p + q]"
  by (auto simp: F_pad_def thenE_def split: if_splits)

lemma F_pad_rank3_ok:
  "mode \<in> {''constant'', ''reflect'', ''replicate'', ''circular''} \<Longrightarrow> pad_admits mode T p q \<Longrightarrow>
   F_pad [B, C, T] [p, q] mode = Inr [B, C, T + p + q]"
  by (auto simp: F_pad_def thenE_def)

lemma F_pad_rank4_ok:
  "mode \<in> {''constant'', ''reflect'', ''replicate'', ''circular''} \<Longrightarrow> pad_admits mode T p q \<Longrightarrow>
   pad_admits mode F p' q' \<Longrightarrow>
   F_pad [B, C, F, T] [p, q, p', q'] mode = Inr [B, C, F + p' + q', T + p + q]"
  by (auto simp: F_pad_def thenE_def)

lemma manage_padding_1d:
  assumes "manage_padding c [B, C, T] ks dl st = Inr y" and "\<not> conv2d c"
  shows "\<exists>T'. y = [B, C, T']"
proof -
  from assms obtain L s k d pad where g: "get_padding_elem L s k d = Inr pad"
    and f: "F_pad [B, C, T] pad (padding_mode c) = Inr y"
    by (auto simp: manage_padding_def thenE_Inr_iff)
  from get_padding_elem_pair [OF g] obtain p where "pad = [p, p]" by blast
  with f F_pad_rank3 show ?thesis by blast
qed

lemma manage_padding_2d:
  assumes "manage_padding c [B, C, F, T] ks dl st = Inr y" and "conv2d c"
  shows "\<exists>F' T'. y = [B, C, F', T']"
proof -
  from assms obtain L s k d pad L' s' k' d' pad' where g: "get_padding_elem L s k d = Inr pad"
    and g': "get_padding_elem L' s' k' d' = Inr pad'"
    and f: "F_pad [B, C, F, T] (pad @ pad') (padding_mode c) = Inr y"
    by (auto simp: manage_padding_def thenE_Inr_iff)
  from get_padding_elem_pair [OF g] obtain p where "pad = [p, p]" by blast
  moreover from get_padding_elem_pair [OF g'] obtain p' where "pad' = [p', p']" by blast
  ultimately show ?thesis using f F_pad_rank4 by fastforce
qed

lemma transpose_rank2: "transpose_1_last [B, T] = Inr [B, T]"
  by (simp add: transpose_1_last_def)

lemma transpose_rank3: "transpose_1_last [B, T, C] = Inr [B, C, T]"
  by (simp add: transpose_1_last_def)

lemma transpose_rank4: "transpose_1_last [B, T, F, C] = Inr [B, C, F, T]"
  by (simp add: transpose_1_last_def)

lemma unsqueeze_rank2: "unsqueeze_1 [B, T] = Inr [B, 1, T]"
  by (simp add: unsqueeze_1_def)

lemma unsqueeze_rank3: "unsqueeze_1 [B, F, T] = Inr [B, 1, F, T]"
  by (simp add: unsqueeze_1_def)

lemma squeeze_rank3: "squeeze_1 [B, C, T] = Inr (if C = 1 then [B, T] else [B, C, T])"
  by (simp add: squeeze_1_def)

lemma squeeze_rank4: "squeeze_1 [B, C, F, T] = Inr (if C = 1 then [B, F, T] else [B, C, F, T])"
  by (simp add: squeeze_1_def)

lemma apply_conv1d_shape:
  "apply_conv (Conv1d ci co k s d g b) [B, C, L] = Inr wx \<Longrightarrow> \<exists>L'. wx = [B, co, L']"
  by (auto simp: thenE_Inr_iff split: if_splits)

lemma apply_conv2d_shape:
  "apply_conv (Conv2d ci co k s d g b) [B, C, H, W] = Inr wx \<Longrightarrow> \<exists>H' W'. wx = [B, co, H', W']"
  by (auto simp: thenE_Inr_iff split: if_splits)

lemma F_conv1d_shape:
  "F_conv1d [B, C, L] [co, ci, k] s d = Inr wx \<Longrightarrow> \<exists>L'. wx = [B, co, L']"
  by (auto simp: F_conv1d_def thenE_Inr_iff split: if_splits)

lemma pad_step_1d:
  assumes "(if padding c then manage_padding c [B, C, T] ks dl st else Inr [B, C, T]) = Inr x4"
    and "\<not> conv2d c"
  shows "\<exists>T2. x4 = [B, C, T2]"
proof (cases "padding c")
  case True
  with assms(1) have "manage_padding c [B, C, T] ks dl st = Inr x4"
    by simp
  then show ?thesis using assms(2) by (rule manage_padding_1d)
next
  case False
  with assms(1) show ?thesis by auto
qed

lemma pad_step_2d:
  assumes "(if padding c then manage_padding c [B, C, F, T] ks dl st else Inr [B, C, F, T]) = Inr x4"
    and "conv2d c"
  shows "\<exists>F2 T2. x4 = [B, C, F2, T2]"
proof (cases "padding c")
  case True
  with assms(1) have "manage_padding c [B, C, F, T] ks dl st = Inr x4"
    by simp
  then show ?thesis using assms(2) by (rule manage_padding_2d)
next
  case False
  with assms(1) show ?thesis by auto
qed

lemma conv_step_1d:
  assumes "(if sinc_conv c
            then thenE (get_sinc_filters c) (\<lambda>sinc_filters.
                 thenE (subscript (kernel_size c) 0) (\<lambda>k.
                 thenE (subscript (stride c) 0) (\<lambda>s.
                 thenE (subscript (dilation c) 0) (\<lambda>d.
                 F_conv1d [B, C, T2] [out_channels c, 1, k] s d))))
            else thenE (attr (conv c)) (\<lambda>m. apply_conv m [B, C, T2])) = Inr wx"
    and "sinc_conv c \<or> (\<exists>ci k s d g b. conv c = Some (Conv1d ci (out_channels c) k s d g b))"
  shows "\<exists>L. wx = [B, out_channels c, L]"
  using assms
  by (cases "sinc_conv c")
     (auto simp: thenE_Inr_iff attr_def dest: F_conv1d_shape apply_conv1d_shape)

lemma conv_step_2d:
  assumes "thenE (attr (conv c)) (\<lambda>m. apply_conv m [B, C, F2, T2]) = Inr wx"
    and "\<exists>ci k s d g b. conv c = Some (Conv2d ci (out_channels c) k s d g b)"
  shows "\<exists>H W. wx = [B, out_channels c, H, W]"
  using assms
  by (auto simp: thenE_Inr_iff attr_def dest: apply_conv2d_shape)

lemma forward_shape_1d_rank3:
  assumes "forward c [B, T, C] False = Inr (c', y)"
    and "\<not> reshape_conv1d c" and "\<not> unsqueeze c" and "\<not> conv2d c"
    and "sinc_conv c \<or> (\<exists>ci k s d g b. conv c = Some (Conv1d ci (out_channels c) k s d g b))"
  shows "\<exists>T'. y = [B, T', out_channels c]"
proof -
  from assms(1-3) obtain x4 wx where
    pad: "(if padding c then manage_padding c [B, C, T] (kernel_size c) (dilation c) (stride c)
           else Inr [B, C, T]) = Inr x4"
    and cv: "(if sinc_conv c
            then thenE (get_sinc_filters c) (\<lambda>sinc_filters.
                 thenE (subscript (kernel_size c) 0) (\<lambda>k.
                 thenE (subscript (stride c) 0) (\<lambda>s.
                 thenE (subscript (dilation c) 0) (\<lambda>d.
                 F_conv1d x4 [out_channels c, 1, k] s d))))
            else thenE (attr (conv c)) (\<lambda>m. apply_conv m x4)) = Inr wx"
    and tr: "transpose_1_last wx = Inr y"
    by (auto simp: forward_def thenE_simps transpose_rank3 thenE_Inr_iff)
  from pad_step_1d [OF pad assms(4)] obtain T2 where x4: "x4 = [B, C, T2]" ..
  from conv_step_1d [OF cv [unfolded x4] assms(5)] obtain L where
    wx: "wx = [B, out_channels c, L]" ..
  from tr show ?thesis
    unfolding wx by (auto simp: transpose_rank3)
qed

lemma forward_shape_1d_rank2:
  assumes "forward c [B, T] False = Inr (c', y)"
    and "\<not> reshape_conv1d c" and "unsqueeze c" and "\<not> conv2d c"
    and "sinc_conv c \<or> (\<exists>ci k s d g b. conv c = Some (Conv1d ci (out_channels c) k s d g b))"
  shows "\<exists>T'. y = (if out_channels c = 1 then [B, T'] else [B, T', out_channels c])"
proof -
  from assms(1-3) obtain x4 wx wx1 where
    pad: "(if padding c then manage_padding c [B, 1, T] (kernel_size c) (dilation c) (stride c)
           else Inr [B, 1, T]) = Inr x4"
    and cv: "(if sinc_conv c
            then thenE (get_sinc_filters c) (\<lambda>sinc_filters.
                 thenE (subscript (kernel_size c) 0) (\<lambda>k.
                 thenE (subscript (stride c) 0) (\<lambda>s.
                 thenE (subscript (dilation c) 0) (\<lambda>d.
                 F_conv1d x4 [out_channels c, 1, k] s d))))
            else thenE (attr (conv c)) (\<lambda>m. apply_conv m x4)) = Inr wx"
    and sq: "squeeze_1 wx = Inr wx1"
    and tr: "transpose_1_last wx1 = Inr y"
    by (auto simp: forward_def thenE_simps transpose_rank2 unsqueeze_rank2 thenE_Inr_iff)
  from pad_step_1d [OF pad assms(4)] obtain T2 where x4: "x4 = [B, 1, T2]" ..
  from conv_step_1d [OF cv [unfolded x4] assms(5)] obtain L where
    wx: "wx = [B, out_channels c, L]" ..
  from sq tr show ?thesis
    unfolding wx by (auto simp: squeeze_rank3 transpose_rank3 transpose_rank2 split: if_splits)
qed

lemma forward_shape_2d_rank4:
  assumes "forward c [B, T, F, C] False = Inr (c', y)"
    and "\<not> reshape_conv1d c" and "\<not> unsqueeze c" and "conv2d c" and "\<not> sinc_conv c"
    and "\<exists>ci k s d g b. conv c = Some (Conv2d ci (out_channels c) k s d g b)"
  shows "\<exists>T' F'. y = [B, T', F', out_channels c]"
proof -
  from assms(1-3,5) obtain x4 wx where
    pad: "(if padding c then manage_padding c [B, C, F, T] (kernel_size c) (dilation c) (stride c)
           else Inr [B, C, F, T]) = Inr x4"
    and cv: "thenE (attr (conv c)) (\<lambda>m. apply_conv m x4) = Inr wx"
    and tr: "transpose_1_last wx = Inr y"
    by (auto simp: forward_def thenE_simps transpose_rank4 thenE_Inr_iff)
  from pad_step_2d [OF pad assms(4)] obtain F2 T2 where x4: "x4 = [B, C, F2, T2]" by blast
  from conv_step_2d [OF cv [unfolded x4] assms(6)] obtain H W where
    wx: "wx = [B, out_channels c, H, W]" by blast
  from tr show ?thesis
    unfolding wx by (auto simp: transpose_rank4)
qed

lemma forward_shape_2d_rank3:
  assumes "forward c [B, T, F] False = Inr (c', y)"
    and "\<not> reshape_conv1d c" and "unsqueeze c" and "conv2d c" and "\<not> sinc_conv c"
    and "\<exists>ci k s d g b. conv c = Some (Conv2d ci (out_channels c) k s d g b)"
  shows "\<exists>T' F'. y = (if out_channels c = 1 then [B, T', F'] else [B, T', F', out_channels c])"
proof -
  from assms(1-3,5) obtain x4 wx wx1 where
    pad: "(if padding c then manage_padding c [B, 1, F, T] (kernel_size c) (dilation c) (stride c)
           else Inr [B, 1, F, T]) = Inr x4"
    and cv: "thenE (attr (conv c)) (\<lambda>m. apply_conv m x4) = Inr wx"
    and sq: "squeeze_1 wx = Inr wx1"
    and tr: "transpose_1_last wx1 = Inr y"
    by (auto simp: forward_def thenE_simps transpose_rank3 unsqueeze_rank3 thenE_Inr_iff)
  from pad_step_2d [OF pad assms(4)] obtain F2 T2 where x4: "x4 = [B, 1, F2, T2]" by blast
  from conv_step_2d [OF cv [unfolded x4] assms(6)] obtain H W where
    wx: "wx = [B, out_channels c, H, W]" by blast
  from sq tr show ?thesis
    unfolding wx by (auto simp: squeeze_rank4 transpose_rank3 transpose_rank4 split: if_splits)
qed

lemma Conv_init_fresh:
  "Conv_init oc ks st dl pd gr bi pm sc sr mlh mbh = Inr c \<Longrightarrow>
     \<not> reshape_conv1d c \<and> \<not> unsqueeze c \<and> out_channels c = oc \<and> sinc_conv c = sc \<and>
     padding c = pd \<and> (conv1d c \<longrightarrow> \<not> conv2d c) \<and> (conv2d c \<longrightarrow> \<not> sinc_conv c)"
  by (auto simp: Conv_init_def kernel_check_def thenE_Inr_iff Let_def split: if_splits py_seq.splits)

lemma init_conv1d_flags:
  "init_conv1d c x = Inr c1 \<Longrightarrow>
     unsqueeze c1 = (length x = 2 \<or> unsqueeze c) \<and>
     reshape_conv1d c1 = (length x = 4 \<or> reshape_conv1d c) \<and>
     (\<exists>ci k s d. conv c1 = Some (Conv1d ci (out_channels c) k s d (groups c) (bias c)))"
  by (auto simp: init_conv1d_def thenE_Inr_iff Let_def new_Conv1d_def split: if_splits)

lemma init_conv2d_flags:
  "init_conv2d c x = Inr c1 \<Longrightarrow>
     unsqueeze c1 = (length x = 3 \<or> unsqueeze c) \<and> reshape_conv1d c1 = reshape_conv1d c \<and>
     conv2d c1 = conv2d c \<and> sinc_conv c1 = sinc_conv c \<and> out_channels c1 = out_channels c \<and>
     (\<exists>ci k s d. conv c1 = Some (Conv2d ci (out_channels c) k s d (groups c) (bias c)))"
  by (auto simp: init_conv2d_def thenE_Inr_iff Let_def new_Conv2d_def split: if_splits)

lemma init_params_1d_flags:
  assumes "init_params c x = Inr c1" and "conv1d c" and "\<not> conv2d c"
  shows "unsqueeze c1 = (length x = 2 \<or> unsqueeze c) \<and>
     reshape_conv1d c1 = (length x = 4 \<or> reshape_conv1d c) \<and>
     conv2d c1 = conv2d c \<and> sinc_conv c1 = sinc_conv c \<and> out_channels c1 = out_channels c \<and>
     (\<exists>ci k s d g b. conv c1 = Some (Conv1d ci (out_channels c1) k s d g b))"
proof (cases "sinc_conv c")
  case True
  with assms have "init_sinc_conv c x = Inr c1" by (simp add: init_params_1d)
  from init_sinc_conv_result [OF this] obtain c0 ss where
    c0: "init_conv1d c x = Inr c0" and c1: "c1 = c0\<lparr>sinc := Some ss\<rparr>"
    by blast
  from init_conv1d_flags [OF c0] init_conv1d_frame [OF c0] show ?thesis
    unfolding c1 by auto
next
  case False
  with assms have c0: "init_conv1d c x = Inr c1" by (simp add: init_params_1d)
  from init_conv1d_flags [OF c0] init_conv1d_frame [OF c0] show ?thesis
    by auto
qed

lemma odd_pad_twice:
  assumes "k mod 2 = 1"
  shows "d * (k - 1) div 2 + d * (k - 1) div 2 = d * (k - (1::int))"
proof -
  from assms obtain j where k: "k = 2 * j + 1"
    by (metis add.commute mult_div_mod_eq)
  have e: "d * (k - 1) = 2 * (d * j)"
    by (simp add: k)
  have "2 * (d * j) div 2 + 2 * (d * j) div 2 = 2 * (d * j)"
    by simp
  then show ?thesis
    unfolding e .
qed

lemma conv_out_len_same:
  assumes "k mod 2 = 1" and "0 < k" and "0 < d" and "0 < L"
  shows "conv_out_len (L + d * (k - 1) div 2 + d * (k - 1) div 2) k 1 d = Inr L"
proof -
  have "L + d * (k - 1) div 2 + d * (k - 1) div 2 = L + d * (k - 1)"
    using odd_pad_twice [OF assms(1), of d] by simp
  with assms show ?thesis
    by (simp add: conv_out_len_def)
qed

lemma manage_padding_1d_ok:
  assumes "\<not> conv2d c"
    and "subscript st (- 1) = Inr 1" and "subscript ks (- 1) = Inr k"
    and "subscript dl (- 1) = Inr d"
    and "padding_mode c \<in> {''constant'', ''reflect'', ''replicate'', ''circular''}"
    and "pad_admits (padding_mode c) T (d * (k - 1) div 2) (d * (k - 1) div 2)"
    and "\<bar>T\<bar> + \<bar>d * (k - 1)\<bar> + 1 < 2 ^ 53"
  shows "manage_padding c [B, C, T] ks dl st =
           Inr [B, C, T + d * (k - 1) div 2 + d * (k - 1) div 2]"
  using assms
  by (simp add: manage_padding_def thenE_simps py_index_def get_padding_elem_stride1
      F_pad_rank3_ok)

lemma manage_padding_2d_ok:
  assumes "conv2d c"
    and "seq_elems st = Inr [1, 1]" and "seq_elems ks = Inr [kf, kt]"
    and "seq_elems dl = Inr [df, dt]"
    and "padding_mode c \<in> {''constant'', ''reflect'', ''replicate'', ''circular''}"
    and "pad_admits (padding_mode c) T (dt * (kt - 1) div 2) (dt * (kt - 1) div 2)"
    and "pad_admits (padding_mode c) F (df * (kf - 1) div 2) (df * (kf - 1) div 2)"
    and "\<bar>T\<bar> + \<bar>dt * (kt - 1)\<bar> + 1 < 2 ^ 53"
    and "\<bar>T\<bar> + \<bar>df * (kf - 1)\<bar> + 1 < 2 ^ 53"
  shows "manage_padding c [B, C, F, T] ks dl st =
           Inr [B, C, F + df * (kf - 1) div 2 + df * (kf - 1) div 2,
                T + dt * (kt - 1) div 2 + dt * (kt - 1) div 2]"
  using assms
  by (simp add: manage_padding_def subscript_def thenE_simps py_index_def
      get_padding_elem_stride1 F_pad_rank4_ok)

lemma init_conv1d_rank3_ok:
  assumes "subscript (kernel_size c) 0 = Inr k" and "subscript (stride c) 0 = Inr s"
    and "subscript (dilation c) 0 = Inr d"
    and "conv_ctor C (out_channels c) [k] (groups c) = Inr ()"
  shows "init_conv1d c [B, T, C] =
           Inr (c\<lparr>in_channels := Some C,
                  conv := Some (Conv1d C (out_channels c) k s d (groups c) (bias c))\<rparr>)"
  using assms by (simp add: init_conv1d_def thenE_simps attr_def new_Conv1d_def Let_def)

lemma init_conv1d_rank2_ok:
  assumes "subscript (kernel_size c) 0 = Inr k" and "subscript (stride c) 0 = Inr s"
    and "subscript (dilation c) 0 = Inr d"
    and "conv_ctor 1 (out_channels c) [k] (groups c) = Inr ()"
  shows "init_conv1d c [B, T] =
           Inr (c\<lparr>unsqueeze := True, in_channels := Some 1,
                  conv := Some (Conv1d 1 (out_channels c) k s d (groups c) (bias c))\<rparr>)"
  using assms by (simp add: init_conv1d_def thenE_simps attr_def new_Conv1d_def Let_def)

lemma init_conv2d_rank4_ok:
  assumes "seq_elems (kernel_size c) = Inr [kt, kf]" and "seq_elems (stride c) = Inr [st, sf]"
    and "seq_elems (dilation c) = Inr [dt, df]"
    and "conv_ctor C (out_channels c) [kf, kt] (groups c) = Inr ()"
  shows "init_conv2d c [B, T, F, C] =
           Inr (c\<lparr>in_channels := Some C, kernel_size := PyTuple [kf, kt],
                  stride := PyTuple [sf, st], dilation := PyTuple [df, dt],
                  conv := Some (Conv2d C (out_channels c) (kf, kt) (sf, st) (df, dt)
                                  (groups c) (bias c))\<rparr>)"
  using assms
  by (simp add: init_conv2d_def subscript_def py_index_def thenE_simps attr_def new_Conv2d_def
      Let_def)

lemma init_conv2d_rank3_ok:
  assumes "seq_elems (kernel_size c) = Inr [kt, kf]" and "seq_elems (stride c) = Inr [st, sf]"
    and "seq_elems (dilation c) = Inr [dt, df]"
    and "conv_ctor 1 (out_channels c) [kf, kt] (groups c) = Inr ()"
  shows "init_conv2d c [B, T, F] =
           Inr (c\<lparr>unsqueeze := True, in_channels := Some 1, kernel_size := PyTuple [kf, kt],
                  stride := PyTuple [sf, st], dilation := PyTuple [df, dt],
                  conv := Some (Conv2d 1 (out_channels c) (kf, kt) (sf, st) (df, dt)
                                  (groups c) (bias c))\<rparr>)"
  using assms
  by (simp add: init_conv2d_def subscript_def py_index_def thenE_simps attr_def new_Conv2d_def
      Let_def)

lemma forward_ok_1d_rank3:
  assumes "\<not> reshape_conv1d c" and "\<not> unsqueeze c" and "\<not> conv2d c" and "\<not> sinc_conv c"
    and "padding c" and "conv c = Some (Conv1d C oc k 1 d g b)"
    and "subscript (stride c) (- 1) = Inr 1" and "subscript (kernel_size c) (- 1) = Inr k"
    and "subscript (dilation c) (- 1) = Inr d"
    and "k mod 2 = 1" and "0 < k" and "0 < d" and "0 < T"
    and "padding_mode c \<in> {''constant'', ''reflect'', ''replicate'', ''circular''}"
    and "pad_admits (padding_mode c) T (d * (k - 1) div 2) (d * (k - 1) div 2)"
    and "\<bar>T\<bar> + \<bar>d * (k - 1)\<bar> + 1 < 2 ^ 53"
  shows "forward c [B, T, C] False = Inr (c, [B, T, oc])"
proof -
  have "manage_padding c [B, C, T] (kernel_size c) (dilation c) (stride c) =
          Inr [B, C, T + d * (k - 1) div 2 + d * (k - 1) div 2]"
    using assms(3,7,8,9,14,15,16) by (rule manage_padding_1d_ok)
  with assms(1,2,4,5,6) conv_out_len_same [OF assms(10,11,12,13)] show ?thesis
    by (simp add: forward_def thenE_simps transpose_rank3 attr_def)
qed

lemma forward_ok_1d_rank2:
  assumes "\<not> reshape_conv1d c" and "unsqueeze c" and "\<not> conv2d c" and "\<not> sinc_conv c"
    and "padding c" and "conv c = Some (Conv1d 1 oc k 1 d g b)"
    and "subscript (stride c) (- 1) = Inr 1" and "subscript (kernel_size c) (- 1) = Inr k"
    and "subscript (dilation c) (- 1) = Inr d"
    and "k mod 2 = 1" and "0 < k" and "0 < d" and "0 < T"
    and "padding_mode c \<in> {''constant'', ''reflect'', ''replicate'', ''circular''}"
    and "pad_admits (padding_mode c) T (d * (k - 1) div 2) (d * (k - 1) div 2)"
    and "\<bar>T\<bar> + \<bar>d * (k - 1)\<bar> + 1 < 2 ^ 53"
  shows "forward c [B, T] False = Inr (c, if oc = 1 then [B, T] else [B, T, oc])"
proof -
  have "manage_padding c [B, 1, T] (kernel_size c) (dilation c) (stride c) =
          Inr [B, 1, T + d * (k - 1) div 2 + d * (k - 1) div 2]"
    using assms(3,7,8,9,14,15,16) by (rule manage_padding_1d_ok)
  with assms(1,2,4,5,6) conv_out_len_same [OF assms(10,11,12,13)] show ?thesis
    by (simp add: forward_def thenE_simps transpose_rank2 transpose_rank3 unsqueeze_rank2
        squeeze_rank3 attr_def)
qed

lemma forward_ok_2d_rank4:
  assumes "\<not> reshape_conv1d c" and "\<not> unsqueeze c" and "conv2d c" and "\<not> sinc_conv c"
    and "padding c" and "conv c = Some (Conv2d C oc (kf, kt) (1, 1) (df, dt) g b)"
    and "seq_elems (stride c) = Inr [1, 1]" and "seq_elems (kernel_size c) = Inr [kf, kt]"
    and "seq_elems (dilation c) = Inr [df, dt]"
    and "kt mod 2 = 1" and "0 < kt" and "0 < dt" and "0 < T"
    and "kf mod 2 = 1" and "0 < kf" and "0 < df" and "0 < F"
    and "padding_mode c \<in> {''constant'', ''reflect'', ''replicate'', ''circular''}"
    and "pad_admits (padding_mode c) T (dt * (kt - 1) div 2) (dt * (kt - 1) div 2)"
    and "pad_admits (padding_mode c) F (df * (kf - 1) div 2) (df * (kf - 1) div 2)"
    and "\<bar>T\<bar> + \<bar>dt * (kt - 1)\<bar> + 1 < 2 ^ 53"
    and "\<bar>T\<bar> + \<bar>df * (kf - 1)\<bar> + 1 < 2 ^ 53"
  shows "forward c [B, T, F, C] False = Inr (c, [B, T, F, oc])"
proof -
  have "manage_padding c [B, C, F, T] (kernel_size c) (dilation c) (stride c) =
          Inr [B, C, F + df * (kf - 1) div 2 + df * (kf - 1) div 2,
               T + dt * (kt - 1) div 2 + dt * (kt - 1) div 2]"
    using assms(3,7,8,9,18,19,20,21,22) by (rule manage_padding_2d_ok)
  with assms(1,2,4,5,6) conv_out_len_same [OF assms(10,11,12,13)]
    conv_out_len_same [OF assms(14,15,16,17)]
  show ?thesis
    by (simp add: forward_def thenE_simps transpose_rank4 attr_def)
qed

lemma forward_ok_2d_rank3:
  assumes "\<not> reshape_conv1d c" and "unsqueeze c" and "conv2d c" and "\<not> sinc_conv c"
    and "padding c" and "conv c = Some (Conv2d 1 oc (kf, kt) (1, 1) (df, dt) g b)"
    and "seq_elems (stride c) = Inr [1, 1]" and "seq_elems (kernel_size c) = Inr [kf, kt]"
    and "seq_elems (dilation c) = Inr [df, dt]"
    and "kt mod 2 = 1" and "0 < kt" and "0 < dt" and "0 < T"
    and "kf mod 2 = 1" and "0 < kf" and "0 < df" and "0 < F"
    and "padding_mode c \<in> {''constant'', ''reflect'', ''replicate'', ''circular''}"
    and "pad_admits (padding_mode c) T (dt * (kt - 1) div 2) (dt * (kt - 1) div 2)"
    and "pad_admits (padding_mode c) F (df * (kf - 1) div 2) (df * (kf - 1) div 2)"
    and "\<bar>T\<bar> + \<bar>dt * (kt - 1)\<bar> + 1 < 2 ^ 53"
    and "\<bar>T\<bar> + \<bar>df * (kf - 1)\<bar> + 1 < 2 ^ 53"
  shows "forward c [B, T, F] False = Inr (c, if oc = 1 then [B, T, F] else [B, T, F, oc])"
proof -
  have "manage_padding c [B, 1, F, T] (kernel_size c) (dilation c) (stride c) =
          Inr [B, 1, F + df * (kf - 1) div 2 + df * (kf - 1) div 2,
               T + dt * (kt - 1) div 2 + dt * (kt - 1) div 2]"
    using assms(3,7,8,9,18,19,20,21,22) by (rule manage_padding_2d_ok)
  with assms(1,2,4,5,6) conv_out_len_same [OF assms(10,11,12,13)]
    conv_out_len_same [OF assms(14,15,16,17)]
  show ?thesis
    by (simp add: forward_def thenE_simps transpose_rank3 transpose_rank4 unsqueeze_rank3
        squeeze_rank4 attr_def)
qed

lemma Conv_init_1d_state:
  assumes "Conv_init oc ks st dl pd gr bi pm sc sr mlh mbh = Inr c"
    and "ks \<in> {PyInt k, PyTuple [k], PyList [k]}"
  shows "k mod 2 = 1 \<and> seq_elems (kernel_size c) = Inr [k] \<and> conv1d c \<and> \<not> conv2d c \<and>
         stride c = st \<and> dilation c = dl \<and> padding c = pd \<and> groups c = gr \<and> bias c = bi \<and>
         padding_mode c = pm \<and> sinc_conv c = sc \<and> out_channels c = oc \<and>
         \<not> reshape_conv1d c \<and> \<not> unsqueeze c"
  using assms
  by (auto simp: Conv_init_def kernel_check_def thenE_def split: if_splits)

lemma Conv_init_2d_state:
  assumes "Conv_init oc ks st dl pd gr bi pm sc sr mlh mbh = Inr c"
    and "ks \<in> {PyTuple [kt, kf], PyList [kt, kf]}"
  shows "kt mod 2 = 1 \<and> kf mod 2 = 1 \<and> seq_elems (kernel_size c) = Inr [kt, kf] \<and>
         \<not> conv1d c \<and> conv2d c \<and>
         stride c = st \<and> dilation c = dl \<and> padding c = pd \<and> groups c = gr \<and> bias c = bi \<and>
         padding_mode c = pm \<and> \<not> sinc_conv c \<and> out_channels c = oc \<and>
         \<not> reshape_conv1d c \<and> \<not> unsqueeze c"
  using assms
  by (auto simp: Conv_init_def kernel_check_def thenE_def split: if_splits)

lemma subscript_single: "seq_elems s = Inr [k] \<Longrightarrow> subscript s 0 = Inr k \<and> subscript s (- 1) = Inr k"
  by (simp add: subscript_def thenE_simps py_index_def)

lemma exact_bound:
  assumes "0 < T" and "0 < k" and "0 < d" and "T + d * (k - 1) + 1 < (2 :: int) ^ 53"
  shows "\<bar>T\<bar> + \<bar>d * (k - 1)\<bar> + 1 < 2 ^ 53" and "k < 2 ^ 53"
proof -
  have nn: "0 \<le> d * (k - 1)"
    using assms(2,3) by simp
  with assms(1,4) show "\<bar>T\<bar> + \<bar>d * (k - 1)\<bar> + 1 < 2 ^ 53"
    by linarith
  have "1 * (k - 1) \<le> d * (k - 1)"
    using assms(2,3) by (intro mult_right_mono) simp_all
  then have "k - 1 \<le> d * (k - 1)"
    by (simp only: mult_1)
  with assms(1,4) show "k < 2 ^ 53"
    by linarith
qed

lemma same_length_1d_rank3:
  assumes "Conv_init oc ks st dl True gr bi pm False sr mlh mbh = Inr c"
    and "ks \<in> {PyInt k, PyTuple [k], PyList [k]}" and "0 < k"
    and "subscript st 0 = Inr 1" and "subscript st (- 1) = Inr 1"
    and "subscript dl 0 = Inr d" and "subscript dl (- 1) = Inr d" and "0 < d"
    and "conv_ctor C oc [k] gr = Inr ()"
    and "pm \<in> {''constant'', ''reflect'', ''replicate'', ''circular''}"
    and "0 < T" and "pad_admits pm T (d * (k - 1) div 2) (d * (k - 1) div 2)"
    and "T + d * (k - 1) + 1 < 2 ^ 53"
  shows "\<exists>c'. forward c [B, T, C] True = Inr (c', [B, T, oc])"
proof -
  note s = Conv_init_1d_state [OF assms(1,2)]
  note ks = subscript_single [of "kernel_size c" k]
  note ex = exact_bound(1) [OF assms(11,3,8,13)]
  define c1 where "c1 = c\<lparr>in_channels := Some C,
                  conv := Some (Conv1d C (out_channels c) k 1 d (groups c) (bias c))\<rparr>"
  have "init_conv1d c [B, T, C] = Inr c1"
    unfolding c1_def using s ks assms(4,6,9) by (intro init_conv1d_rank3_ok) simp_all
  with s have i: "init_params c [B, T, C] = Inr c1"
    by (simp add: init_params_1d)
  have "forward c1 [B, T, C] False = Inr (c1, [B, T, oc])"
    using s ks assms(3,5,7,8,10,11,12) ex
    by (intro forward_ok_1d_rank3 [where k = k and d = d and g = gr and b = bi])
       (simp_all add: c1_def)
  with i show ?thesis
    by (simp add: forward_init thenE_simps)
qed

lemma same_length_1d_rank2:
  assumes "Conv_init oc ks st dl True gr bi pm False sr mlh mbh = Inr c"
    and "ks \<in> {PyInt k, PyTuple [k], PyList [k]}" and "0 < k"
    and "subscript st 0 = Inr 1" and "subscript st (- 1) = Inr 1"
    and "subscript dl 0 = Inr d" and "subscript dl (- 1) = Inr d" and "0 < d"
    and "conv_ctor 1 oc [k] gr = Inr ()"
    and "pm \<in> {''constant'', ''reflect'', ''replicate'', ''circular''}"
    and "0 < T" and "pad_admits pm T (d * (k - 1) div 2) (d * (k - 1) div 2)"
    and "T + d * (k - 1) + 1 < 2 ^ 53"
  shows "\<exists>c'. forward c [B, T] True = Inr (c', if oc = 1 then [B, T] else [B, T, oc])"
proof -
  note s = Conv_init_1d_state [OF assms(1,2)]
  note ks = subscript_single [of "kernel_size c" k]
  note ex = exact_bound(1) [OF assms(11,3,8,13)]
  define c1 where "c1 = c\<lparr>unsqueeze := True, in_channels := Some 1,
                  conv := Some (Conv1d 1 (out_channels c) k 1 d (groups c) (bias c))\<rparr>"
  have "init_conv1d c [B, T] = Inr c1"
    unfolding c1_def using s ks assms(4,6,9) by (intro init_conv1d_rank2_ok) simp_all
  with s have i: "init_params c [B, T] = Inr c1"
    by (simp add: init_params_1d)
  have "forward c1 [B, T] False = Inr (c1, if oc = 1 then [B, T] else [B, T, oc])"
    using s ks assms(3,5,7,8,10,11,12) ex
    by (intro forward_ok_1d_rank2 [where k = k and d = d and g = gr and b = bi])
       (simp_all add: c1_def)
  with i show ?thesis
    by (simp add: forward_init thenE_simps)
qed

lemma same_length_2d_rank4:
  assumes "Conv_init oc ks st dl True gr bi pm False sr mlh mbh = Inr c"
    and "ks \<in> {PyTuple [kt, kf], PyList [kt, kf]}" and "0 < kt" and "0 < kf"
    and "seq_elems st = Inr [1, 1]" and "seq_elems dl = Inr [dt, df]" and "0 < dt" and "0 < df"
    and "conv_ctor C oc [kf, kt] gr = Inr ()"
    and "pm \<in> {''constant'', ''reflect'', ''replicate'', ''circular''}"
    and "0 < T" and "pad_admits pm T (dt * (kt - 1) div 2) (dt * (kt - 1) div 2)"
    and "0 < F" and "pad_admits pm F (df * (kf - 1) div 2) (df * (kf - 1) div 2)"
    and "T + dt * (kt - 1) + 1 < 2 ^ 53" and "T + df * (kf - 1) + 1 < 2 ^ 53"
  shows "\<exists>c'. forward c [B, T, F, C] True = Inr (c', [B, T, F, oc])"
proof -
  note s = Conv_init_2d_state [OF assms(1,2)]
  note ex = exact_bound(1) [OF assms(11,3,7,15)] exact_bound(1) [OF assms(11,4,8,16)]
  define c1 where "c1 = c\<lparr>in_channels := Some C, kernel_size := PyTuple [kf, kt],
                  stride := PyTuple [1, 1], dilation := PyTuple [df, dt],
                  conv := Some (Conv2d C (out_channels c) (kf, kt) (1, 1) (df, dt)
                                  (groups c) (bias c))\<rparr>"
  have "init_conv2d c [B, T, F, C] = Inr c1"
    unfolding c1_def using s assms(5,6,9) by (intro init_conv2d_rank4_ok) simp_all
  with s have i: "init_params c [B, T, F, C] = Inr c1"
    by (simp add: init_params_2d)
  have "forward c1 [B, T, F, C] False = Inr (c1, [B, T, F, oc])"
    using s assms(3,4,7,8,10,11,12,13,14) ex
    by (intro forward_ok_2d_rank4 [where kt = kt and kf = kf and dt = dt and df = df
          and g = gr and b = bi])
       (simp_all add: c1_def)
  with i show ?thesis
    by (simp add: forward_init thenE_simps)
qed

lemma same_length_2d_rank3:
  assumes "Conv_init oc ks st dl True gr bi pm False sr mlh mbh = Inr c"
    and "ks \<in> {PyTuple [kt, kf], PyList [kt, kf]}" and "0 < kt" and "0 < kf"
    and "seq_elems st = Inr [1, 1]" and "seq_elems dl = Inr [dt, df]" and "0 < dt" and "0 < df"
    and "conv_ctor 1 oc [kf, kt] gr = Inr ()"
    and "pm \<in> {''constant'', ''reflect'', ''replicate'', ''circular''}"
    and "0 < T" and "pad_admits pm T (dt * (kt - 1) div 2) (dt * (kt - 1) div 2)"
    and "0 < F" and "pad_admits pm F (df * (kf - 1) div 2) (df * (kf - 1) div 2)"
    and "T + dt * (kt - 1) + 1 < 2 ^ 53" and "T + df * (kf - 1) + 1 < 2 ^ 53"
  shows "\<exists>c'. forward c [B, T, F] True =
           Inr (c', if oc = 1 then [B, T, F] else [B, T, F, oc])"
proof -
  note s = Conv_init_2d_state [OF assms(1,2)]
  note ex = exact_bound(1) [OF assms(11,3,7,15)] exact_bound(1) [OF assms(11,4,8,16)]
  define c1 where "c1 = c\<lparr>unsqueeze := True, in_channels := Some 1,
                  kernel_size := PyTuple [kf, kt],
                  stride := PyTuple [1, 1], dilation := PyTuple [df, dt],
                  conv := Some (Conv2d 1 (out_channels c) (kf, kt) (1, 1) (df, dt)
                                  (groups c) (bias c))\<rparr>"
  have "init_conv2d c [B, T, F] = Inr c1"
    unfolding c1_def using s assms(5,6,9) by (intro init_conv2d_rank3_ok) simp_all
  with s have i: "init_params c [B, T, F] = Inr c1"
    by (simp add: init_params_2d)
  have "forward c1 [B, T, F] False = Inr (c1, if oc = 1 then [B, T, F] else [B, T, F, oc])"
    using s assms(3,4,7,8,10,11,12,13,14) ex
    by (intro forward_ok_2d_rank3 [where kt = kt and kf = kf and dt = dt and df = df
          and g = gr and b = bi])
       (simp_all add: c1_def)
  with i show ?thesis
    by (simp add: forward_init thenE_simps)
qed

lemma conv_ctor_out_nonneg: "conv_ctor ci co ks g = Inr () \<Longrightarrow> 0 \<le> co"
  by (auto simp: conv_ctor_def split: if_splits)

text \<open>
  For an odd kernel size below \<open>2 ^ 53\<close> the two halves \<open>kernel_size[0] / 2\<close> and
  \<open>(kernel_size[0] - 1) / 2.0\<close> are exact, and \<open>_init_sinc_conv\<close> builds a window and a
  time axis of \<open>(kernel_size[0] - 1) // 2\<close> points each.
\<close>

lemma init_sinc_conv_ok:
  assumes "init_conv1d c x = Inr c1" and "subscript (kernel_size c) 0 = Inr k"
    and "k mod 2 = 1" and "0 < k" and "k < 2 ^ 53"
  shows "\<exists>ss. init_sinc_conv c x = Inr (c1\<lparr>sinc := Some ss\<rparr>) \<and>
           length (p_n ss) = nat ((k - 1) div 2) \<and> length (p_window ss) = nat ((k - 1) div 2) \<and>
           length (p_low_hz ss) = nat (out_channels c) \<and>
           length (p_band_hz ss) = nat (out_channels c)"
proof -
  note fr = init_conv1d_frame [OF assms(1)]
  have oc: "0 \<le> out_channels c"
    using assms(1) by (rule init_conv1d_out_nonneg)
  define a where "a = to_mel (min_low_hz c)"
  define b where "b = to_mel (sample_rate c / 2 - (min_low_hz c + min_band_hz c))"
  from oc obtain mel where mel: "linspace a b (out_channels c + 1) = Inr mel"
    using linspace_ok [of "out_channels c + 1" a b] by auto
  have kb: "\<bar>k\<bar> < 2 ^ 53" "\<bar>k - 1\<bar> < 2 ^ 53"
    using assms(4,5) by simp_all
  have half: "int_truediv k 2 = Inr (real_of_int k / 2)"
    using kb(1) by (rule int_truediv_half)
  have km1: "int_to_float (k - 1) = Inr (real_of_int (k - 1))"
    using kb(2) by (rule int_to_float_exact)
  have h: "py_int (real_of_int k / 2) = (k - 1) div 2"
    using assms(3,4) by (rule odd_half_floor)
  have h0: "0 \<le> (k - 1) div 2"
    using assms(4) by simp
  from h0 obtain n_lin where nl: "linspace 0 (real_of_int k / 2 - 1) ((k - 1) div 2) = Inr n_lin"
    using linspace_ok [of "(k - 1) div 2" 0 "real_of_int k / 2 - 1"] by auto
  have "\<not> (0 < - (real_of_int (k - 1) / 2))"
    using assms(4) by simp
  then obtain ar where ar: "arange (- (real_of_int (k - 1) / 2)) 0 = Inr ar"
    by (auto simp: arange_def)
  define ss where "ss = \<lparr>p_low_hz = butlast (map to_hz mel),
             p_band_hz = map2 (\<lambda>a b. a - b) (tl (map to_hz mel)) (butlast (map to_hz mel)),
             p_window = map (\<lambda>t. 0.54 - 0.46 * cos (2 * pi * t / real_of_int k)) n_lin,
             p_n = map (\<lambda>t. fdiv (Fin (2 * pi * t)) (Fin (sample_rate c))) ar\<rparr>"
  have "init_sinc_conv c x = Inr (c1\<lparr>sinc := Some ss\<rparr>)"
    unfolding init_sinc_conv_def ss_def
    using assms(1,2) mel nl ar fr h half km1
    by (simp add: thenE_simps Let_def a_def b_def)
  moreover have "length (p_n ss) = nat ((k - 1) div 2)"
    using arange_length [OF ar] odd_half_ceiling [OF assms(3)] by (simp add: ss_def)
  moreover have "length (p_window ss) = nat ((k - 1) div 2)"
    using linspace_length [OF nl] by (simp add: ss_def)
  moreover have "length (p_low_hz ss) = nat (out_channels c)"
    using linspace_length [OF mel] oc by (simp add: ss_def nat_add_distrib)
  moreover have "length (p_band_hz ss) = nat (out_channels c)"
    using linspace_length [OF mel] oc by (simp add: ss_def nat_add_distrib)
  ultimately show ?thesis by blast
qed

text \<open>
  The filters exist right after the initialisation: the final \<open>view\<close> of
  \<open>_get_sinc_filters\<close> finds \<open>out_channels\<close> rows of \<open>kernel_size[0]\<close> entries.
\<close>

lemma sinc_params_ok:
  assumes "init_conv1d c x = Inr c0" and "subscript (kernel_size c) 0 = Inr k"
    and "k mod 2 = 1" and "0 < k" and "k < 2 ^ 53"
  shows "\<exists>ss fs. init_sinc_conv c x = Inr (c0\<lparr>sinc := Some ss\<rparr>) \<and>
           get_sinc_filters (c0\<lparr>sinc := Some ss\<rparr>) = Inr fs"
proof -
  from init_sinc_conv_ok [OF assms] obtain ss where
    i1: "init_sinc_conv c x = Inr (c0\<lparr>sinc := Some ss\<rparr>)"
    and l: "length (p_n ss) = nat ((k - 1) div 2)" "length (p_window ss) = nat ((k - 1) div 2)"
      "length (p_low_hz ss) = nat (out_channels c)" "length (p_band_hz ss) = nat (out_channels c)"
    by blast
  note fr = init_conv1d_frame [OF assms(1)]
  have oc: "0 \<le> out_channels c"
    using assms(1) by (rule init_conv1d_out_nonneg)
  define c1 where "c1 = c0\<lparr>sinc := Some ss\<rparr>"
  have "0 \<le> (k - 1) div 2" and "2 * ((k - 1) div 2) + 1 = k"
    using assms(3,4) by presburger+
  then have hk: "int (2 * nat ((k - 1) div 2) + 1) = k"
    by simp
  have "get_sinc_filters c1 =
          Inr (map2 (sinc_row (p_n ss) (p_window ss)) (sinc_low c1 ss) (sinc_high c1 ss))"
  proof (rule get_sinc_filters_ok [where k = k and h = "nat ((k - 1) div 2)"
        and n = "nat (out_channels c)"])
    show "sinc c1 = Some ss" by (simp add: c1_def)
    show "subscript (kernel_size c1) 0 = Inr k" using assms(2) fr by (simp add: c1_def)
    show "length (p_n ss) = nat ((k - 1) div 2)" by (rule l(1))
    show "length (p_window ss) = nat ((k - 1) div 2)" by (rule l(2))
    show "int (2 * nat ((k - 1) div 2) + 1) = k" by (rule hk)
    show "length (p_low_hz ss) = nat (out_channels c)" by (rule l(3))
    show "length (p_band_hz ss) = nat (out_channels c)" by (rule l(4))
    show "int (nat (out_channels c)) = out_channels c1" using oc fr by (simp add: c1_def)
  qed
  with i1 show ?thesis
    unfolding c1_def by blast
qed

lemma F_conv1d_same:
  assumes "k mod 2 = 1" and "0 < k" and "0 < d" and "0 < T"
  shows "F_conv1d [B, 1, T + d * (k - 1) div 2 + d * (k - 1) div 2] [oc, 1, k] 1 d = Inr [B, oc, T]"
  using conv_out_len_same [OF assms] by (simp add: F_conv1d_def thenE_simps)

lemma forward_ok_sinc_rank2:
  assumes "\<not> reshape_conv1d c" and "unsqueeze c" and "\<not> conv2d c" and "sinc_conv c"
    and "padding c" and "get_sinc_filters c = Inr fs"
    and "subscript (stride c) 0 = Inr 1" and "subscript (kernel_size c) 0 = Inr k"
    and "subscript (dilation c) 0 = Inr d"
    and "subscript (stride c) (- 1) = Inr 1" and "subscript (kernel_size c) (- 1) = Inr k"
    and "subscript (dilation c) (- 1) = Inr d"
    and "k mod 2 = 1" and "0 < k" and "0 < d" and "0 < T"
    and "padding_mode c \<in> {''constant'', ''reflect'', ''replicate'', ''circular''}"
    and "pad_admits (padding_mode c) T (d * (k - 1) div 2) (d * (k - 1) div 2)"
    and "\<bar>T\<bar> + \<bar>d * (k - 1)\<bar> + 1 < 2 ^ 53"
  shows "forward c [B, T] False =
           Inr (c, if out_channels c = 1 then [B, T] else [B, T, out_channels c])"
proof -
  have "manage_padding c [B, 1, T] (kernel_size c) (dilation c) (stride c) =
          Inr [B, 1, T + d * (k - 1) div 2 + d * (k - 1) div 2]"
    using assms(3,10,11,12,17,18,19) by (rule manage_padding_1d_ok)
  with assms(1,2,4,5,6,7,8,9) F_conv1d_same [OF assms(13,14,15,16)] show ?thesis
    by (simp add: forward_def thenE_simps transpose_rank2 transpose_rank3 unsqueeze_rank2
        squeeze_rank3)
qed

lemma forward_ok_sinc_rank3:
  assumes "\<not> reshape_conv1d c" and "\<not> unsqueeze c" and "\<not> conv2d c" and "sinc_conv c"
    and "padding c" and "get_sinc_filters c = Inr fs"
    and "subscript (stride c) 0 = Inr 1" and "subscript (kernel_size c) 0 = Inr k"
    and "subscript (dilation c) 0 = Inr d"
    and "subscript (stride c) (- 1) = Inr 1" and "subscript (kernel_size c) (- 1) = Inr k"
    and "subscript (dilation c) (- 1) = Inr d"
    and "k mod 2 = 1" and "0 < k" and "0 < d" and "0 < T"
    and "padding_mode c \<in> {''constant'', ''reflect'', ''replicate'', ''circular''}"
    and "pad_admits (padding_mode c) T (d * (k - 1) div 2) (d * (k - 1) div 2)"
    and "\<bar>T\<bar> + \<bar>d * (k - 1)\<bar> + 1 < 2 ^ 53"
  shows "forward c [B, T, 1] False = Inr (c, [B, T, out_channels c])"
proof -
  have "manage_padding c [B, 1, T] (kernel_size c) (dilation c) (stride c) =
          Inr [B, 1, T + d * (k - 1) div 2 + d * (k - 1) div 2]"
    using assms(3,10,11,12,17,18,19) by (rule manage_padding_1d_ok)
  with assms(1,2,4,5,6,7,8,9) F_conv1d_same [OF assms(13,14,15,16)] show ?thesis
    by (simp add: forward_def thenE_simps transpose_rank3)
qed

lemma same_length_sinc_rank2:
  assumes "Conv_init oc ks st dl True gr bi pm True sr mlh mbh = Inr c"
    and "ks \<in> {PyInt k, PyTuple [k], PyList [k]}" and "0 < k"
    and "subscript st 0 = Inr 1" and "subscript st (- 1) = Inr 1"
    and "subscript dl 0 = Inr d" and "subscript dl (- 1) = Inr d" and "0 < d"
    and "conv_ctor 1 oc [k] gr = Inr ()"
    and "pm \<in> {''constant'', ''reflect'', ''replicate'', ''circular''}"
    and "0 < T" and "pad_admits pm T (d * (k - 1) div 2) (d * (k - 1) div 2)"
    and "T + d * (k - 1) + 1 < 2 ^ 53"
  shows "\<exists>c'. forward c [B, T] True = Inr (c', if oc = 1 then [B, T] else [B, T, oc])"
proof -
  note s = Conv_init_1d_state [OF assms(1,2)]
  note ks = subscript_single [of "kernel_size c" k]
  note ex = exact_bound [OF assms(11,3,8,13)]
  define c0 where "c0 = c\<lparr>unsqueeze := True, in_channels := Some 1,
                  conv := Some (Conv1d 1 (out_channels c) k 1 d (groups c) (bias c))\<rparr>"
  have i0: "init_conv1d c [B, T] = Inr c0"
    unfolding c0_def using s ks assms(4,6,9) by (intro init_conv1d_rank2_ok) simp_all
  from s ks have k0: "subscript (kernel_size c) 0 = Inr k" and odd: "k mod 2 = 1"
    by simp_all
  from sinc_params_ok [OF i0 k0 odd assms(3) ex(2)] obtain ss fs where
    i1: "init_sinc_conv c [B, T] = Inr (c0\<lparr>sinc := Some ss\<rparr>)"
    and fs: "get_sinc_filters (c0\<lparr>sinc := Some ss\<rparr>) = Inr fs"
    by blast
  define c1 where "c1 = c0\<lparr>sinc := Some ss\<rparr>"
  from i1 s have i: "init_params c [B, T] = Inr c1"
    by (simp add: init_params_1d c1_def)
  have "forward c1 [B, T] False =
          Inr (c1, if out_channels c1 = 1 then [B, T] else [B, T, out_channels c1])"
    using fs s ks assms(3,4,5,6,7,8,10,11,12) odd ex(1)
    by (intro forward_ok_sinc_rank2 [where k = k and d = d and fs = fs])
       (simp_all add: c1_def c0_def)
  moreover have "out_channels c1 = oc"
    using s by (simp add: c1_def c0_def)
  ultimately show ?thesis
    using i by (simp add: forward_init thenE_simps)
qed

lemma same_length_sinc_rank3:
  assumes "Conv_init oc ks st dl True gr bi pm True sr mlh mbh = Inr c"
    and "ks \<in> {PyInt k, PyTuple [k], PyList [k]}" and "0 < k"
    and "subscript st 0 = Inr 1" and "subscript st (- 1) = Inr 1"
    and "subscript dl 0 = Inr d" and "subscript dl (- 1) = Inr d" and "0 < d"
    and "conv_ctor 1 oc [k] gr = Inr ()"
    and "pm \<in> {''constant'', ''reflect'', ''replicate'', ''circular''}"
    and "0 < T" and "pad_admits pm T (d * (k - 1) div 2) (d * (k - 1) div 2)"
    and "T + d * (k - 1) + 1 < 2 ^ 53"
  shows "\<exists>c'. forward c [B, T, 1] True = Inr (c', [B, T, oc])"
proof -
  note s = Conv_init_1d_state [OF assms(1,2)]
  note ks = subscript_single [of "kernel_size c" k]
  note ex = exact_bound [OF assms(11,3,8,13)]
  define c0 where "c0 = c\<lparr>in_channels := Some 1,
                  conv := Some (Conv1d 1 (out_channels c) k 1 d (groups c) (bias c))\<rparr>"
  have i0: "init_conv1d c [B, T, 1] = Inr c0"
    unfolding c0_def using s ks assms(4,6,9) by (intro init_conv1d_rank3_ok) simp_all
  from s ks have k0: "subscript (kernel_size c) 0 = Inr k" and odd: "k mod 2 = 1"
    by simp_all
  from sinc_params_ok [OF i0 k0 odd assms(3) ex(2)] obtain ss fs where
    i1: "init_sinc_conv c [B, T, 1] = Inr (c0\<lparr>sinc := Some ss\<rparr>)"
    and fs: "get_sinc_filters (c0\<lparr>sinc := Some ss\<rparr>) = Inr fs"
    by blast
  define c1 where "c1 = c0\<lparr>sinc := Some ss\<rparr>"
  from i1 s have i: "init_params c [B, T, 1] = Inr c1"
    by (simp add: init_params_1d c1_def)
  have "forward c1 [B, T, 1] False = Inr (c1, [B, T, out_channels c1])"
    using fs s ks assms(3,4,5,6,7,8,10,11,12) odd ex(1)
    by (intro forward_ok_sinc_rank3 [where k = k and d = d and fs = fs])
       (simp_all add: c1_def c0_def)
  moreover have "out_channels c1 = oc"
    using s by (simp add: c1_def c0_def)
  ultimately show ?thesis
    using i by (simp add: forward_init thenE_simps)
qed

text \<open>
  A rank-4 input in the 1D mode passes \<open>init_params\<close>, and \<open>forward\<close> then always
  raises: the output of the convolution has rank 3 and the source reads its fourth
  dimension, \<open>wx.shape[3]\<close>.
\<close>

lemma reshape_shape: "reshape x dims = Inr y \<Longrightarrow> y = dims"
  by (auto simp: reshape_def split: if_splits)

lemma forward_1d_rank4_raises:
  assumes "Conv_init oc ks st dl pd gr bi pm sc sr mlh mbh = Inr c" and "conv1d c"
  shows "isl (forward c [B, T, F, C] True)"
proof (rule ccontr)
  assume "\<not> isl (forward c [B, T, F, C] True)"
  then obtain c' y where "forward c [B, T, F, C] True = Inr (c', y)"
    by (cases "forward c [B, T, F, C] True") auto
  then obtain c1 where i: "init_params c [B, T, F, C] = Inr c1"
    and f: "forward c1 [B, T, F, C] False = Inr (c', y)"
    by (auto simp: forward_init thenE_Inr_iff)
  note fresh = Conv_init_fresh [OF assms(1)]
  from init_params_1d_flags [OF i] assms(2) fresh
  have fl: "reshape_conv1d c1" "\<not> unsqueeze c1" "\<not> conv2d c1"
    "sinc_conv c1 \<or> (\<exists>ci k s d g b. conv c1 = Some (Conv1d ci (out_channels c1) k s d g b))"
    by auto
  from f fl(1,2) obtain x2 x4 wx wx2 where
    rs: "reshape [B, C, F, T] [B, C * F, T] = Inr x2"
    and pad: "(if padding c1 then manage_padding c1 x2 (kernel_size c1) (dilation c1) (stride c1)
           else Inr x2) = Inr x4"
    and cv: "(if sinc_conv c1
            then thenE (get_sinc_filters c1) (\<lambda>sinc_filters.
                 thenE (subscript (kernel_size c1) 0) (\<lambda>k.
                 thenE (subscript (stride c1) 0) (\<lambda>s.
                 thenE (subscript (dilation c1) 0) (\<lambda>d.
                 F_conv1d x4 [out_channels c1, 1, k] s d))))
            else thenE (attr (conv c1)) (\<lambda>m. apply_conv m x4)) = Inr wx"
    and unrs: "thenE (py_index wx 1) (\<lambda>w1.
                 thenE (py_index wx 2) (\<lambda>w2.
                 thenE (py_index wx 3) (\<lambda>w3.
                 reshape wx [B, w1, w2, w3]))) = Inr wx2"
    by (auto simp: forward_def thenE_simps transpose_rank4 py_index_def thenE_Inr_iff)
  from reshape_shape [OF rs] have x2: "x2 = [B, C * F, T]" .
  from pad_step_1d [OF pad [unfolded x2] fl(3)] obtain T2 where x4: "x4 = [B, C * F, T2]" ..
  from conv_step_1d [OF cv [unfolded x4] fl(4)] obtain L where
    wx: "wx = [B, out_channels c1, L]" ..
  from unrs show False
    unfolding wx by (simp add: py_index_def thenE_simps)
qed

text \<open>
  Claim C1, for stride 1. With \<open>padding=True\<close> and stride 1 the first call of \<open>forward\<close>
  returns an output whose time axis (and, in the 2D mode, frequency axis) is as long as
  that of the input. This holds for every odd positive kernel size, every positive
  dilation and every positive input length \<open>T\<close> that the padding mode admits, as long as
  \<open>T + dilation * (kernel_size - 1) + 1\<close> is below \<open>2 ^ 53\<close>, where the floats of
  \<open>_get_padding_elem\<close> are exact; in the 2D mode both paddings are computed from the
  length \<open>T\<close> of the time axis, so the bound is on \<open>T\<close> for both kernel sizes. The cases
  are, by mode and rank of the input:
  in the 1D mode rank 3, where a sinc layer needs an input with one channel, since its
  filters have one input channel; in the 1D mode rank 2, where the output gains the
  channel axis unless \<open>out_channels\<close> is 1; in the 2D mode rank 4; in the 2D mode
  rank 3, where the output gains the channel axis likewise. In the 1D mode the sequence
  \<open>dilation\<close> gives the same value at index 0 (used by the convolution) and at index -1
  (used by the padding). On an input of rank 4 in the 1D mode \<open>forward\<close> raises, so there
  is no output to compare.
\<close>

theorem same_length_stride1:
  "(Conv_init oc ks st dl True gr bi pm sc sr mlh mbh = Inr c \<and>
    ks \<in> {PyInt k, PyTuple [k], PyList [k]} \<and> 0 < k \<and>
    subscript st 0 = Inr 1 \<and> subscript st (- 1) = Inr 1 \<and>
    subscript dl 0 = Inr d \<and> subscript dl (- 1) = Inr d \<and> 0 < d \<and>
    pm \<in> {''constant'', ''reflect'', ''replicate'', ''circular''} \<and>
    0 < T \<and> pad_admits pm T (d * (k - 1) div 2) (d * (k - 1) div 2) \<and>
    T + d * (k - 1) + 1 < 2 ^ 53 \<longrightarrow>
      ((sc \<longrightarrow> C = 1) \<and> conv_ctor C oc [k] gr = Inr () \<longrightarrow>
         (\<exists>c'. forward c [B, T, C] True = Inr (c', [B, T, oc]))) \<and>
      (conv_ctor 1 oc [k] gr = Inr () \<longrightarrow>
         (\<exists>c'. forward c [B, T] True = Inr (c', if oc = 1 then [B, T] else [B, T, oc]))) \<and>
      isl (forward c [B, T, F, D] True)) \<and>
   (Conv_init oc ks2 st2 dl2 True gr bi pm False sr mlh mbh = Inr c2 \<and>
    ks2 \<in> {PyTuple [kt, kf], PyList [kt, kf]} \<and> 0 < kt \<and> 0 < kf \<and>
    seq_elems st2 = Inr [1, 1] \<and> seq_elems dl2 = Inr [dt, df] \<and> 0 < dt \<and> 0 < df \<and>
    pm \<in> {''constant'', ''reflect'', ''replicate'', ''circular''} \<and>
    0 < T2 \<and> pad_admits pm T2 (dt * (kt - 1) div 2) (dt * (kt - 1) div 2) \<and>
    0 < F2 \<and> pad_admits pm F2 (df * (kf - 1) div 2) (df * (kf - 1) div 2) \<and>
    T2 + dt * (kt - 1) + 1 < 2 ^ 53 \<and> T2 + df * (kf - 1) + 1 < 2 ^ 53 \<longrightarrow>
      (conv_ctor C2 oc [kf, kt] gr = Inr () \<longrightarrow>
         (\<exists>c'. forward c2 [B2, T2, F2, C2] True = Inr (c', [B2, T2, F2, oc]))) \<and>
      (conv_ctor 1 oc [kf, kt] gr = Inr () \<longrightarrow>
         (\<exists>c'. forward c2 [B2, T2, F2] True =
                  Inr (c', if oc = 1 then [B2, T2, F2] else [B2, T2, F2, oc]))))"
proof (intro conjI impI; (elim conjE)?)
  assume a: "Conv_init oc ks st dl True gr bi pm sc sr mlh mbh = Inr c"
    "ks \<in> {PyInt k, PyTuple [k], PyList [k]}" "0 < k"
    "subscript st 0 = Inr 1" "subscript st (- 1) = Inr 1"
    "subscript dl 0 = Inr d" "subscript dl (- 1) = Inr d" "0 < d"
    "conv_ctor C oc [k] gr = Inr ()"
    "pm \<in> {''constant'', ''reflect'', ''replicate'', ''circular''}"
    "0 < T" "pad_admits pm T (d * (k - 1) div 2) (d * (k - 1) div 2)"
    "T + d * (k - 1) + 1 < 2 ^ 53"
    and one: "sc \<longrightarrow> C = 1"
  show "\<exists>c'. forward c [B, T, C] True = Inr (c', [B, T, oc])"
  proof (cases sc)
    case True
    with one have C: "C = 1" by simp
    from a True have "\<exists>c'. forward c [B, T, 1] True = Inr (c', [B, T, oc])"
      unfolding C by (intro same_length_sinc_rank3 [where k = k and d = d]) simp_all
    then show ?thesis unfolding C .
  next
    case False
    with a show ?thesis by (intro same_length_1d_rank3 [where k = k and d = d]) simp_all
  qed
next
  assume a: "Conv_init oc ks st dl True gr bi pm sc sr mlh mbh = Inr c"
    "ks \<in> {PyInt k, PyTuple [k], PyList [k]}" "0 < k"
    "subscript st 0 = Inr 1" "subscript st (- 1) = Inr 1"
    "subscript dl 0 = Inr d" "subscript dl (- 1) = Inr d" "0 < d"
    "conv_ctor 1 oc [k] gr = Inr ()"
    "pm \<in> {''constant'', ''reflect'', ''replicate'', ''circular''}"
    "0 < T" "pad_admits pm T (d * (k - 1) div 2) (d * (k - 1) div 2)"
    "T + d * (k - 1) + 1 < 2 ^ 53"
  show "\<exists>c'. forward c [B, T] True = Inr (c', if oc = 1 then [B, T] else [B, T, oc])"
  proof (cases sc)
    case True
    with a show ?thesis by (intro same_length_sinc_rank2 [where k = k and d = d]) simp_all
  next
    case False
    with a show ?thesis by (intro same_length_1d_rank2 [where k = k and d = d]) simp_all
  qed
next
  assume a: "Conv_init oc ks st dl True gr bi pm sc sr mlh mbh = Inr c"
    "ks \<in> {PyInt k, PyTuple [k], PyList [k]}"
  from Conv_init_1d_state [OF a] have "conv1d c" by simp
  with a(1) show "isl (forward c [B, T, F, D] True)"
    by (rule forward_1d_rank4_raises)
next
  assume "Conv_init oc ks2 st2 dl2 True gr bi pm False sr mlh mbh = Inr c2"
    "ks2 \<in> {PyTuple [kt, kf], PyList [kt, kf]}" "0 < kt" "0 < kf"
    "seq_elems st2 = Inr [1, 1]" "seq_elems dl2 = Inr [dt, df]" "0 < dt" "0 < df"
    "conv_ctor C2 oc [kf, kt] gr = Inr ()"
    "pm \<in> {''constant'', ''reflect'', ''replicate'', ''circular''}"
    "0 < T2" "pad_admits pm T2 (dt * (kt - 1) div 2) (dt * (kt - 1) div 2)"
    "0 < F2" "pad_admits pm F2 (df * (kf - 1) div 2) (df * (kf - 1) div 2)"
    "T2 + dt * (kt - 1) + 1 < 2 ^ 53" "T2 + df * (kf - 1) + 1 < 2 ^ 53"
  then show "\<exists>c'. forward c2 [B2, T2, F2, C2] True = Inr (c', [B2, T2, F2, oc])"
    by (rule same_length_2d_rank4)
next
  assume "Conv_init oc ks2 st2 dl2 True gr bi pm False sr mlh mbh = Inr c2"
    "ks2 \<in> {PyTuple [kt, kf], PyList [kt, kf]}" "0 < kt" "0 < kf"
    "seq_elems st2 = Inr [1, 1]" "seq_elems dl2 = Inr [dt, df]" "0 < dt" "0 < df"
    "conv_ctor 1 oc [kf, kt] gr = Inr ()"
    "pm \<in> {''constant'', ''reflect'', ''replicate'', ''circular''}"
    "0 < T2" "pad_admits pm T2 (dt * (kt - 1) div 2) (dt * (kt - 1) div 2)"
    "0 < F2" "pad_admits pm F2 (df * (kf - 1) div 2) (df * (kf - 1) div 2)"
    "T2 + dt * (kt - 1) + 1 < 2 ^ 53" "T2 + df * (kf - 1) + 1 < 2 ^ 53"
  then show "\<exists>c'. forward c2 [B2, T2, F2] True =
                  Inr (c', if oc = 1 then [B2, T2, F2] else [B2, T2, F2, oc])"
    by (rule same_length_2d_rank3)
qed

theorem same_length_stride1_witness:
  "\<exists>c c2.
     Conv_init 25 (PyTuple [11]) (PyTuple [1, 1]) (PyTuple [1, 1]) True 1 True ''reflect'' True
       16000 50 50 = Inr c \<and>
     (\<exists>c'. forward c [10, 16000, 1] True = Inr (c', [10, 16000, 25])) \<and>
     (\<exists>c'. forward c [10, 16000] True = Inr (c', [10, 16000, 25])) \<and>
     isl (forward c [10, 16000, 1, 1] True) \<and>
     Conv_init 25 (PyTuple [11, 5]) (PyTuple [1, 1]) (PyTuple [1, 1]) True 1 True ''reflect'' False
       16000 50 50 = Inr c2 \<and>
     (\<exists>c'. forward c2 [10, 100, 40, 128] True = Inr (c', [10, 100, 40, 25])) \<and>
     (\<exists>c'. forward c2 [10, 100, 40] True = Inr (c', [10, 100, 40, 25]))"
proof -
  obtain c where c: "Conv_init 25 (PyTuple [11]) (PyTuple [1, 1]) (PyTuple [1, 1]) True 1 True
       ''reflect'' True 16000 50 50 = Inr c"
    by (simp add: ctor_defs)
  obtain c2 where c2: "Conv_init 25 (PyTuple [11, 5]) (PyTuple [1, 1]) (PyTuple [1, 1]) True 1
       True ''reflect'' False 16000 50 50 = Inr c2"
    by (simp add: ctor_defs)
  have h: "subscript (PyTuple [1, 1]) 0 = Inr 1" "subscript (PyTuple [1, 1]) (- 1) = Inr 1"
    "conv_ctor 1 25 [11] 1 = Inr ()" "conv_ctor 128 25 [5, 11] 1 = Inr ()"
    "conv_ctor 1 25 [5, 11] 1 = Inr ()"
    "pad_admits ''reflect'' 16000 (1 * (11 - 1) div 2) (1 * (11 - 1) div 2)"
    "pad_admits ''reflect'' 100 (1 * (11 - 1) div 2) (1 * (11 - 1) div 2)"
    "pad_admits ''reflect'' 40 (1 * (5 - 1) div 2) (1 * (5 - 1) div 2)"
    by (simp_all add: subscript_def py_index_def thenE_def conv_ctor_def pad_admits_def)
  from same_length_stride1 [where oc = 25 and ks = "PyTuple [11]" and st = "PyTuple [1, 1]"
      and dl = "PyTuple [1, 1]" and gr = 1 and bi = True and pm = "''reflect''" and sc = True
      and sr = 16000 and mlh = 50 and mbh = 50 and c = c and k = 11 and d = 1 and T = 16000
      and C = 1 and B = 10 and F = 1 and D = 1
      and ?ks2.0 = "PyTuple [11, 5]" and ?st2.0 = "PyTuple [1, 1]"
      and ?dl2.0 = "PyTuple [1, 1]" and ?c2.0 = c2 and kt = 11 and kf = 5 and dt = 1 and df = 1
      and ?C2.0 = 128 and ?T2.0 = 100 and ?F2.0 = 40 and ?B2.0 = 10]
  have "(\<exists>c'. forward c [10, 16000, 1] True = Inr (c', [10, 16000, 25])) \<and>
     (\<exists>c'. forward c [10, 16000] True = Inr (c', [10, 16000, 25])) \<and>
     isl (forward c [10, 16000, 1, 1] True) \<and>
     (\<exists>c'. forward c2 [10, 100, 40, 128] True = Inr (c', [10, 100, 40, 25])) \<and>
     (\<exists>c'. forward c2 [10, 100, 40] True = Inr (c', [10, 100, 40, 25]))"
    using c c2 h by simp
  with c c2 show ?thesis by blast
qed

text \<open>
  With stride 2 the padding is \<open>kernel_size // 2\<close> on each side and the convolution
  keeps every second position: ten time steps become five.
\<close>

theorem stride2_halves_length_counterexample:
  "map_sum id snd
     (forward (projr (Conv_init 25 (PyTuple [3]) (PyTuple [2]) (PyTuple [1]) True 1 True ''reflect''
                        False 16000 50 50)) [10, 10, 1] True) = Inr [10, 5, 25]"
  by (simp add: ctor_defs init_defs forward_defs get_padding_elem_strided)

text \<open>
  Claim C5, rank by rank. Whenever \<open>forward\<close> returns on the first call of a new layer,
  the first dimension of the output is the batch dimension of the input, and: in the
  1D mode a rank-3 input gives a rank-3 output with \<open>out_channels\<close> last; in the 2D mode
  a rank-4 input gives a rank-4 output with \<open>out_channels\<close> last; a rank-2 input in
  the 1D mode and a rank-3 input in the 2D mode gain a channel axis, so the output has
  one dimension more than the input and \<open>out_channels\<close> last, unless \<open>out_channels\<close>
  is 1 and the rank is kept.
\<close>

theorem forward_rank_uniform:
  assumes "Conv_init oc ks st dl pd gr bi pm sc sr mlh mbh = Inr c"
    and "forward c x True = Inr (c', y)"
  shows "(conv1d c \<and> x = [B, T, C] \<longrightarrow> (\<exists>T'. y = [B, T', oc])) \<and>
         (conv1d c \<and> x = [B, T] \<longrightarrow> (\<exists>T'. y = (if oc = 1 then [B, T'] else [B, T', oc]))) \<and>
         (conv2d c \<and> x = [B, T, F, C] \<longrightarrow> (\<exists>T' F'. y = [B, T', F', oc])) \<and>
         (conv2d c \<and> x = [B, T, F] \<longrightarrow>
            (\<exists>T' F'. y = (if oc = 1 then [B, T', F'] else [B, T', F', oc])))"
proof -
  note fresh = Conv_init_fresh [OF assms(1)]
  from assms(2) obtain c1 where i: "init_params c x = Inr c1"
    and f: "forward c1 x False = Inr (c', y)"
    by (auto simp: forward_init thenE_Inr_iff)
  have one: "\<exists>T'. y = [B, T', oc]" if "conv1d c" "x = [B, T, C]"
  proof -
    from init_params_1d_flags [OF i] that fresh
    have "\<not> reshape_conv1d c1" "\<not> unsqueeze c1" "\<not> conv2d c1" "out_channels c1 = oc"
      "sinc_conv c1 \<or> (\<exists>ci k s d g b. conv c1 = Some (Conv1d ci (out_channels c1) k s d g b))"
      by auto
    with forward_shape_1d_rank3 [of c1 B T C c' y] f that(2) show ?thesis by auto
  qed
  have two: "\<exists>T'. y = (if oc = 1 then [B, T'] else [B, T', oc])" if "conv1d c" "x = [B, T]"
  proof -
    from init_params_1d_flags [OF i] that fresh
    have "\<not> reshape_conv1d c1" "unsqueeze c1" "\<not> conv2d c1" "out_channels c1 = oc"
      "sinc_conv c1 \<or> (\<exists>ci k s d g b. conv c1 = Some (Conv1d ci (out_channels c1) k s d g b))"
      by auto
    with forward_shape_1d_rank2 [of c1 B T c' y] f that(2) show ?thesis by auto
  qed
  have i2: "init_conv2d c x = Inr c1" if "conv2d c"
    using that fresh i by (auto simp: init_params_2d)
  have three: "\<exists>T' F'. y = [B, T', F', oc]" if "conv2d c" "x = [B, T, F, C]"
  proof -
    from init_conv2d_flags [OF i2 [OF that(1)]] that fresh
    have "\<not> reshape_conv1d c1" "\<not> unsqueeze c1" "conv2d c1" "\<not> sinc_conv c1"
      "out_channels c1 = oc"
      "\<exists>ci k s d g b. conv c1 = Some (Conv2d ci (out_channels c1) k s d g b)"
      by auto
    with forward_shape_2d_rank4 [of c1 B T F C c' y] f that(2) show ?thesis by auto
  qed
  have four: "\<exists>T' F'. y = (if oc = 1 then [B, T', F'] else [B, T', F', oc])"
    if "conv2d c" "x = [B, T, F]"
  proof -
    from init_conv2d_flags [OF i2 [OF that(1)]] that fresh
    have "\<not> reshape_conv1d c1" "unsqueeze c1" "conv2d c1" "\<not> sinc_conv c1"
      "out_channels c1 = oc"
      "\<exists>ci k s d g b. conv c1 = Some (Conv2d ci (out_channels c1) k s d g b)"
      by auto
    with forward_shape_2d_rank3 [of c1 B T F c' y] f that(2) show ?thesis by auto
  qed
  from one two three four show ?thesis by blast
qed

theorem forward_rank_uniform_witness:
  "\<exists>c d c' y d' z.
     Conv_init 25 (PyTuple [11]) (PyTuple [1, 1]) (PyTuple [1, 1]) True 1 True ''reflect'' False
       16000 50 50 = Inr c \<and> conv1d c \<and>
     forward c [10, 16000, 1] True = Inr (c', y) \<and> (\<exists>T'. y = [10, T', 25]) \<and>
     Conv_init 25 (PyTuple [11, 5]) (PyTuple [1, 1]) (PyTuple [1, 1]) True 1 True ''reflect'' False
       16000 50 50 = Inr d \<and> conv2d d \<and>
     forward d [10, 100, 40, 128] True = Inr (d', z) \<and> (\<exists>T' F'. z = [10, T', F', 25])"
proof -
  have "\<exists>c. Conv_init 25 (PyTuple [11]) (PyTuple [1, 1]) (PyTuple [1, 1]) True 1 True ''reflect''
          False 16000 50 50 = Inr c \<and> conv1d c \<and>
          (\<exists>c' y. forward c [10, 16000, 1] True = Inr (c', y))"
    by (simp add: ctor_defs init_defs forward_defs get_padding_elem_stride1)
  then obtain c c' y where c: "Conv_init 25 (PyTuple [11]) (PyTuple [1, 1]) (PyTuple [1, 1]) True 1
          True ''reflect'' False 16000 50 50 = Inr c" "conv1d c"
    and f: "forward c [10, 16000, 1] True = Inr (c', y)"
    by blast
  have "\<exists>d. Conv_init 25 (PyTuple [11, 5]) (PyTuple [1, 1]) (PyTuple [1, 1]) True 1 True ''reflect''
          False 16000 50 50 = Inr d \<and> conv2d d \<and>
          (\<exists>d' z. forward d [10, 100, 40, 128] True = Inr (d', z))"
    by (simp add: ctor_defs init_defs forward_defs get_padding_elem_stride1)
  then obtain d d' z where d: "Conv_init 25 (PyTuple [11, 5]) (PyTuple [1, 1]) (PyTuple [1, 1])
          True 1 True ''reflect'' False 16000 50 50 = Inr d" "conv2d d"
    and g: "forward d [10, 100, 40, 128] True = Inr (d', z)"
    by blast
  have "\<exists>T'. y = [10, T', 25]"
    using forward_rank_uniform [OF c(1) f, of 10 16000 1] c(2) by simp
  moreover have "\<exists>T' F'. z = [10, T', F', 25]"
    using forward_rank_uniform [OF d(1) g, where B = 10 and T = 100 and F = 40 and C = 128] d(2)
    by simp
  ultimately show ?thesis
    using c d f g by blast
qed

text \<open>
  The layer of the docstring on an input of rank 2: the output has rank 3.
\<close>

theorem forward_rank2_gains_axis_counterexample:
  "map_sum id snd (forward (projr (Conv_default 25 (PyTuple [11]))) [10, 16000] True)
     = Inr [10, 16000, 25] \<and>
   length [10, 16000, 25 :: int] \<noteq> length [10, 16000 :: int]"
  by (simp add: ctor_defs init_defs forward_defs get_padding_elem_stride1)

end
